theory Spec2Isabelle
  imports Main "HOL-Library.Word" "HOL-Library.AList"
begin

unbundle bit_operations_syntax

section \<open>The digest and the hex codecs the identity derivation calls\<close>

text \<open>
  \<^verbatim>\<open>getAssetId\<close> calls three functions of the Node runtime:
  \<^verbatim>\<open>crypto.createHash('sha256')\<close>, \<^verbatim>\<open>Buffer.from(s, 'hex')\<close> and \<^verbatim>\<open>digest('hex')\<close>.
  SHA-256 is written out below after FIPS 180-4 (message padding, the 64-word message
  schedule, 64 rounds per 512-bit block), on bytes (\<open>8 word\<close>) and 32-bit words with
  wrap-around addition.
\<close>

type_synonym byte = "8 word"
type_synonym u32 = "32 word"

definition rotr :: "nat \<Rightarrow> u32 \<Rightarrow> u32" where
  "rotr n x = drop_bit n x OR push_bit (32 - n) x"

definition Ch :: "u32 \<Rightarrow> u32 \<Rightarrow> u32 \<Rightarrow> u32" where
  "Ch x y z = (x AND y) XOR (NOT x AND z)"

definition Maj :: "u32 \<Rightarrow> u32 \<Rightarrow> u32 \<Rightarrow> u32" where
  "Maj x y z = (x AND y) XOR (x AND z) XOR (y AND z)"

definition bsig0 :: "u32 \<Rightarrow> u32" where
  "bsig0 x = rotr 2 x XOR rotr 13 x XOR rotr 22 x"

definition bsig1 :: "u32 \<Rightarrow> u32" where
  "bsig1 x = rotr 6 x XOR rotr 11 x XOR rotr 25 x"

definition ssig0 :: "u32 \<Rightarrow> u32" where
  "ssig0 x = rotr 7 x XOR rotr 18 x XOR drop_bit 3 x"

definition ssig1 :: "u32 \<Rightarrow> u32" where
  "ssig1 x = rotr 17 x XOR rotr 19 x XOR drop_bit 10 x"

definition K256 :: "u32 list" where
  "K256 =
     [0x428a2f98, 0x71374491, 0xb5c0fbcf, 0xe9b5dba5, 0x3956c25b, 0x59f111f1, 0x923f82a4, 0xab1c5ed5] @
     [0xd807aa98, 0x12835b01, 0x243185be, 0x550c7dc3, 0x72be5d74, 0x80deb1fe, 0x9bdc06a7, 0xc19bf174] @
     [0xe49b69c1, 0xefbe4786, 0x0fc19dc6, 0x240ca1cc, 0x2de92c6f, 0x4a7484aa, 0x5cb0a9dc, 0x76f988da] @
     [0x983e5152, 0xa831c66d, 0xb00327c8, 0xbf597fc7, 0xc6e00bf3, 0xd5a79147, 0x06ca6351, 0x14292967] @
     [0x27b70a85, 0x2e1b2138, 0x4d2c6dfc, 0x53380d13, 0x650a7354, 0x766a0abb, 0x81c2c92e, 0x92722c85] @
     [0xa2bfe8a1, 0xa81a664b, 0xc24b8b70, 0xc76c51a3, 0xd192e819, 0xd6990624, 0xf40e3585, 0x106aa070] @
     [0x19a4c116, 0x1e376c08, 0x2748774c, 0x34b0bcb5, 0x391c0cb3, 0x4ed8aa4a, 0x5b9cca4f, 0x682e6ff3] @
     [0x748f82ee, 0x78a5636f, 0x84c87814, 0x8cc70208, 0x90befffa, 0xa4506ceb, 0xbef9a3f7, 0xc67178f2]"

definition H256 :: "u32 list" where
  "H256 = [0x6a09e667, 0xbb67ae85, 0x3c6ef372, 0xa54ff53a,
           0x510e527f, 0x9b05688c, 0x1f83d9ab, 0x5be0cd19]"

fun be32 :: "byte list \<Rightarrow> u32 list" where
  "be32 (a # b # c # d # bs) =
     (push_bit 24 (ucast a) OR push_bit 16 (ucast b) OR push_bit 8 (ucast c) OR ucast d) # be32 bs"
| "be32 _ = []"

definition bytes32 :: "u32 \<Rightarrow> byte list" where
  "bytes32 w = [ucast (drop_bit 24 w), ucast (drop_bit 16 w), ucast (drop_bit 8 w), ucast w]"

definition bytes64 :: "64 word \<Rightarrow> byte list" where
  "bytes64 w = map (\<lambda>i. ucast (drop_bit (8 * i) w)) [7, 6, 5, 4, 3, 2, 1, 0]"

text \<open>
  Padding: the byte \<open>0x80\<close>, zero bytes up to 56 modulo 64, and the length of the message
  in bits as a 64-bit big-endian number.
\<close>

definition pad :: "byte list \<Rightarrow> byte list" where
  "pad m = m @ [0x80] @ replicate ((119 - length m mod 64) mod 64) 0
             @ bytes64 (word_of_nat (8 * length m))"

fun schedule256 :: "nat \<Rightarrow> u32 list \<Rightarrow> u32 list" where
  "schedule256 0 w = w"
| "schedule256 (Suc n) w =
     (let t = length w
      in schedule256 n (w @ [ssig1 (w ! (t - 2)) + w ! (t - 7) + ssig0 (w ! (t - 15)) + w ! (t - 16)]))"

fun round256 :: "u32 list \<Rightarrow> u32 \<times> u32 \<Rightarrow> u32 list" where
  "round256 [a, b, c, d, e, f, g, h] (k, w) =
     (let t1 = h + bsig1 e + Ch e f g + k + w; t2 = bsig0 a + Maj a b c
      in [t1 + t2, a, b, c, d + t1, e, f, g])"
| "round256 s _ = s"

definition compress :: "u32 list \<Rightarrow> byte list \<Rightarrow> u32 list" where
  "compress h blk = map2 (+) h (foldl round256 h (zip K256 (schedule256 48 (be32 blk))))"

fun sha_blocks :: "nat \<Rightarrow> u32 list \<Rightarrow> byte list \<Rightarrow> u32 list" where
  "sha_blocks 0 h bs = h"
| "sha_blocks (Suc n) h bs = sha_blocks n (compress h (take 64 bs)) (drop 64 bs)"

definition sha256 :: "byte list \<Rightarrow> byte list" where
  "sha256 m = (let p = pad m in concat (map bytes32 (sha_blocks (length p div 64) H256 p)))"

definition hexDigit :: "nat \<Rightarrow> char" where
  "hexDigit n = ''0123456789abcdef'' ! n"

definition digestHex :: "byte list \<Rightarrow> string" where
  "digestHex bs = concat (map (\<lambda>b. [hexDigit (unat b div 16), hexDigit (unat b mod 16)]) bs)"

text \<open>
  \<^verbatim>\<open>Buffer.from(s, 'hex')\<close> never throws: it reads the string two characters at a
  time and stops at the first pair that is not two hexadecimal digits; a trailing single
  character is dropped.
\<close>

definition unhex :: "char \<Rightarrow> nat option" where
  "unhex c =
     (let n = (of_char c :: nat)
      in if 48 \<le> n \<and> n \<le> 57 then Some (n - 48)
         else if 97 \<le> n \<and> n \<le> 102 then Some (n - 87)
         else if 65 \<le> n \<and> n \<le> 70 then Some (n - 55)
         else None)"

fun bufferFromHex :: "string \<Rightarrow> byte list" where
  "bufferFromHex (a # b # cs) =
     (case unhex a of
        None \<Rightarrow> []
      | Some x \<Rightarrow>
          (case unhex b of
             None \<Rightarrow> []
           | Some y \<Rightarrow> word_of_nat (16 * x + y) # bufferFromHex cs))"
| "bufferFromHex _ = []"

section \<open>Identity derivation\<close>

text \<open>
  \<^verbatim>\<open>'0x' + createHash('sha256').update(Buffer.from(contractId.slice(2) + subId.slice(2), 'hex')).digest('hex')\<close>:
  the two strings lose their first two characters (whatever they are), are concatenated
  as text, and the concatenation is decoded as one hex string.
\<close>

definition getAssetId :: "string \<Rightarrow> string \<Rightarrow> string" where
  "getAssetId contractId subId =
     ''0x'' @ digestHex (sha256 (bufferFromHex (drop 2 contractId @ drop 2 subId)))"

section \<open>Data model\<close>

definition setNameEventId :: nat where
  "setNameEventId = 7845998088195677205"

definition setSymbolEventId :: nat where
  "setSymbolEventId = 12152039456660331088"

definition setDecimalsEventId :: nat where
  "setDecimalsEventId = 18149631459970394923"

text \<open>\<^verbatim>\<open>toString()\<close> of a non-negative bigint: its decimal digits.\<close>

function toString :: "nat \<Rightarrow> string" where
  "toString n =
     (if n < 10 then [''0123456789'' ! n]
      else toString (n div 10) @ [''0123456789'' ! (n mod 10)])"
  by pat_completeness auto
termination
  by (relation "measure (\<lambda>n. n)") auto

declare toString.simps [simp del]

datatype error = TypeError | DecodeError | StoreUnavailableError

text \<open>
  The fields of a receipt that the handler reads. Every field but the kind is optional
  in the stream's type; the handler asserts presence with \<^verbatim>\<open>!\<close>, which checks nothing
  at run time.
\<close>

record receipt =
  receiptType :: string
  contract :: "string option"
  subId :: "string option"
  rb :: "nat option"
  data :: "string option"

record block =
  receipts :: "receipt list"

text \<open>
  A decoded SRC-20 log: \<^verbatim>\<open>asset.bits\<close> and the properties \<^verbatim>\<open>name\<close>, \<^verbatim>\<open>symbol\<close>,
  \<^verbatim>\<open>decimals\<close> the handler reads from it (a property the log does not carry reads
  as \<^verbatim>\<open>undefined\<close>, here \<open>None\<close>).
\<close>

record logEvent =
  bits :: string
  name :: "string option"
  symbol :: "string option"
  decimals :: "int option"

text \<open>
  The entity class. \<^verbatim>\<open>undefined\<close> and \<^verbatim>\<open>null\<close> are both \<open>None\<close>: the store writes
  either as SQL NULL. The primary key \<^verbatim>\<open>id\<close> is the field \<open>id'\<close>.
\<close>

record Asset =
  id' :: string
  contractId :: "string option"
  subId :: "string option"
  name :: "string option"
  symbol :: "string option"
  decimals :: "int option"

text \<open>\<^verbatim>\<open>new Asset({ id: assetId })\<close>: only \<^verbatim>\<open>id\<close> is assigned.\<close>

definition newAsset :: "string \<Rightarrow> Asset" where
  "newAsset assetId =
     \<lparr>id' = assetId, contractId = None, subId = None, name = None, symbol = None,
      decimals = None\<rparr>"

section \<open>The external collaborators\<close>

text \<open>
  Modelled from the spec: the ABI file \<^verbatim>\<open>abis/src20-abi.json\<close> and the decoder of the
  \<^verbatim>\<open>fuels\<close> library are not part of the sources here, so \<^verbatim>\<open>src20Interface.decodeLog\<close>
  is a parameter: given the receipt's payload and the log id as a string it yields a
  decoded event or throws. \<open>fault\<close> says for which ids the store's point lookup
  rejects instead of answering.
\<close>

record env =
  decodeLog :: "string option \<Rightarrow> string \<Rightarrow> error + logEvent"
  fault :: "string \<Rightarrow> error option"

text \<open>
  The store: the rows of table \<^verbatim>\<open>asset\<close> by primary key, and the calls it received
  (the ids looked up, the lists upserted), in order.
\<close>

record Store =
  rows :: "string \<rightharpoonup> Asset"
  findOneCalls :: "string list"
  upsertCalls :: "Asset list list"

record ctx =
  blocks :: "block list"
  store :: Store

definition findOne :: "env \<Rightarrow> string \<Rightarrow> Store \<Rightarrow> (error + Asset option) \<times> Store" where
  "findOne env assetId db =
     ((case fault env assetId of Some e \<Rightarrow> Inl e | None \<Rightarrow> Inr (rows db assetId)),
      db\<lparr>findOneCalls := findOneCalls db @ [assetId]\<rparr>)"

text \<open>Insert-or-update by primary key, one row per entity, in list order.\<close>

definition upsert :: "Asset list \<Rightarrow> Store \<Rightarrow> Store" where
  "upsert entities db =
     db\<lparr>rows := foldl (\<lambda>m a. m(id' a \<mapsto> a)) (rows db) entities,
        upsertCalls := upsertCalls db @ [entities]\<rparr>"

section \<open>The batch handler\<close>

text \<open>
  The handler's state while it walks the batch: the store and \<^verbatim>\<open>assetsById\<close>, a
  JavaScript object used as a dictionary. Its keys are kept in insertion order, which is
  the order of \<^verbatim>\<open>Object.values\<close>; assigning to a key that exists keeps its place.
  Each entry holds its own object (a row freshly loaded or freshly made), so writing a
  field of the object is an update of the entry. The keys are asset ids, \<open>0x\<close> and hex
  digits as \<^verbatim>\<open>getAssetId\<close> and the ABI decoder write them, so none is the name of a
  property that every JavaScript object inherits.
\<close>

type_synonym state = "Store \<times> (string \<times> Asset) list"

definition getAsset :: "env \<Rightarrow> string \<Rightarrow> state \<Rightarrow> (error + Asset) \<times> state" where
  "getAsset env assetId st =
     (case st of (db, assetsById) \<Rightarrow>
        (case map_of assetsById assetId of
           Some asset \<Rightarrow> (Inr asset, db, AList.update assetId asset assetsById)
         | None \<Rightarrow>
             (case findOne env assetId db of
                (Inl e, db') \<Rightarrow> (Inl e, db', assetsById)
              | (Inr (Some asset), db') \<Rightarrow>
                  (Inr asset, db', AList.update assetId asset assetsById)
              | (Inr None, db') \<Rightarrow>
                  (Inr (newAsset assetId), db',
                   AList.update assetId (newAsset assetId) assetsById))))"

definition processMint :: "env \<Rightarrow> receipt \<Rightarrow> state \<Rightarrow> (error + unit) \<times> state" where
  "processMint env r st =
     (case contract r of
        None \<Rightarrow> (Inl TypeError, st)
      | Some c \<Rightarrow>
          (case receipt.subId r of
             None \<Rightarrow> (Inl TypeError, st)
           | Some s \<Rightarrow>
               (case getAsset env (getAssetId c s) st of
                  (Inl e, st') \<Rightarrow> (Inl e, st')
                | (Inr mintedAsset, db, assetsById) \<Rightarrow>
                    (Inr (), db,
                     AList.update (getAssetId c s)
                       (mintedAsset\<lparr>contractId := contract r, subId := receipt.subId r\<rparr>)
                       assetsById))))"

definition setName :: "env \<Rightarrow> receipt \<Rightarrow> state \<Rightarrow> (error + unit) \<times> state" where
  "setName env r st =
     (case decodeLog env (data r) (toString setNameEventId) of
        Inl e \<Rightarrow> (Inl e, st)
      | Inr nameEvent \<Rightarrow>
          (case getAsset env (bits nameEvent) st of
             (Inl e, st') \<Rightarrow> (Inl e, st')
           | (Inr nameAsset, db, assetsById) \<Rightarrow>
               (Inr (), db,
                AList.update (bits nameEvent)
                  (nameAsset\<lparr>name := logEvent.name nameEvent\<rparr>) assetsById)))"

definition setSymbol :: "env \<Rightarrow> receipt \<Rightarrow> state \<Rightarrow> (error + unit) \<times> state" where
  "setSymbol env r st =
     (case decodeLog env (data r) (toString setSymbolEventId) of
        Inl e \<Rightarrow> (Inl e, st)
      | Inr symbolEvent \<Rightarrow>
          (case getAsset env (bits symbolEvent) st of
             (Inl e, st') \<Rightarrow> (Inl e, st')
           | (Inr symbolAsset, db, assetsById) \<Rightarrow>
               (Inr (), db,
                AList.update (bits symbolEvent)
                  (symbolAsset\<lparr>symbol := logEvent.symbol symbolEvent\<rparr>) assetsById)))"

definition setDecimals :: "env \<Rightarrow> receipt \<Rightarrow> state \<Rightarrow> (error + unit) \<times> state" where
  "setDecimals env r st =
     (case decodeLog env (data r) (toString setDecimalsEventId) of
        Inl e \<Rightarrow> (Inl e, st)
      | Inr decimalsEvent \<Rightarrow>
          (case getAsset env (bits decimalsEvent) st of
             (Inl e, st') \<Rightarrow> (Inl e, st')
           | (Inr decimalsAsset, db, assetsById) \<Rightarrow>
               (Inr (), db,
                AList.update (bits decimalsEvent)
                  (decimalsAsset\<lparr>decimals := logEvent.decimals decimalsEvent\<rparr>)
                  assetsById)))"

text \<open>The \<^verbatim>\<open>switch (receipt.rb)\<close>: three cases and no default.\<close>

definition processLogData :: "env \<Rightarrow> receipt \<Rightarrow> state \<Rightarrow> (error + unit) \<times> state" where
  "processLogData env r st =
     (if rb r = Some setNameEventId then setName env r st
      else if rb r = Some setSymbolEventId then setSymbol env r st
      else if rb r = Some setDecimalsEventId then setDecimals env r st
      else (Inr (), st))"

text \<open>The body of the inner loop: two \<^verbatim>\<open>if\<close> statements, one after the other.\<close>

definition processReceipt :: "env \<Rightarrow> receipt \<Rightarrow> state \<Rightarrow> (error + unit) \<times> state" where
  "processReceipt env r st =
     (case (if receiptType r = ''MINT'' then processMint env r st else (Inr (), st)) of
        (Inl e, st') \<Rightarrow> (Inl e, st')
      | (Inr _, st') \<Rightarrow>
          (if receiptType r = ''LOG_DATA'' then processLogData env r st' else (Inr (), st')))"

fun processReceipts :: "env \<Rightarrow> receipt list \<Rightarrow> state \<Rightarrow> (error + unit) \<times> state" where
  "processReceipts env [] st = (Inr (), st)"
| "processReceipts env (r # rs) st =
     (case processReceipt env r st of
        (Inl e, st') \<Rightarrow> (Inl e, st')
      | (Inr _, st') \<Rightarrow> processReceipts env rs st')"

fun processBlocks :: "env \<Rightarrow> block list \<Rightarrow> state \<Rightarrow> (error + unit) \<times> state" where
  "processBlocks env [] st = (Inr (), st)"
| "processBlocks env (b # bs) st =
     (case processReceipts env (receipts b) st of
        (Inl e, st') \<Rightarrow> (Inl e, st')
      | (Inr _, st') \<Rightarrow> processBlocks env bs st')"

text \<open>
  The handler given to \<^verbatim>\<open>run\<close>: a fresh \<^verbatim>\<open>assetsById\<close>, the two loops, then one
  \<^verbatim>\<open>ctx.store.upsert(Object.values(assetsById))\<close>. An exception leaves the handler
  before that call. The result is the outcome and the store afterwards. The source does
  not await the upsert; here the call is taken as carried out when the handler returns.
\<close>

definition handler :: "env \<Rightarrow> ctx \<Rightarrow> (error + unit) \<times> Store" where
  "handler env c =
     (case processBlocks env (blocks c) (store c, []) of
        (Inl e, db, assetsById) \<Rightarrow> (Inl e, db)
      | (Inr _, db, assetsById) \<Rightarrow> (Inr (), upsert (map snd assetsById) db))"

section \<open>Auxiliary notions for the statements\<close>

text \<open>
  What a step of the batch may do to the state before the final upsert: the rows and the
  upsert calls of the store stay as they are, and no key leaves \<^verbatim>\<open>assetsById\<close>.
\<close>

definition proceeds :: "state \<Rightarrow> state \<Rightarrow> bool" where
  "proceeds st st' \<longleftrightarrow>
     rows (fst st') = rows (fst st) \<and> upsertCalls (fst st') = upsertCalls (fst st) \<and>
     (\<forall>k. map_of (snd st) k \<noteq> None \<longrightarrow> map_of (snd st') k \<noteq> None)"

text \<open>A receipt that, when processed, assigns the name of asset \<open>k\<close>.\<close>

definition setsNameOf :: "env \<Rightarrow> string \<Rightarrow> receipt \<Rightarrow> bool" where
  "setsNameOf env k r \<longleftrightarrow>
     receiptType r = ''LOG_DATA'' \<and> rb r = Some setNameEventId \<and>
     (case decodeLog env (data r) (toString setNameEventId) of
        Inl e \<Rightarrow> False
      | Inr ev \<Rightarrow> bits ev = k)"

text \<open>
  The spec's notion of a well-formed hexadecimal input (after the prefix is removed):
  hexadecimal digits only, and an even number of them.
\<close>

definition wellFormedHex :: "string \<Rightarrow> bool" where
  "wellFormedHex s \<longleftrightarrow> even (length s) \<and> list_all (\<lambda>c. unhex c \<noteq> None) s"

text \<open>
  The store's rows are keyed by the primary key: the row found under an id has that id.
\<close>

definition keyed :: "(string \<rightharpoonup> Asset) \<Rightarrow> bool" where
  "keyed t \<longleftrightarrow> (\<forall>k a. t k = Some a \<longrightarrow> id' a = k)"

text \<open>
  \<^verbatim>\<open>assetsById\<close> as the handler keeps it: one entry per key, and each entry's record
  has the key as its id.
\<close>

definition consistent :: "(string \<times> Asset) list \<Rightarrow> bool" where
  "consistent m \<longleftrightarrow> distinct (map fst m) \<and> list_all (\<lambda>(k, a). id' a = k) m"

section \<open>Sample inputs\<close>

definition emptyStore :: Store where
  "emptyStore = \<lparr>rows = Map.empty, findOneCalls = [], upsertCalls = []\<rparr>"

definition mintReceipt :: "string \<Rightarrow> string \<Rightarrow> receipt" where
  "mintReceipt c s =
     \<lparr>receiptType = ''MINT'', contract = Some c, receipt.subId = Some s, rb = None,
      data = None\<rparr>"

definition logReceipt :: "nat \<Rightarrow> string option \<Rightarrow> receipt" where
  "logReceipt code payload =
     \<lparr>receiptType = ''LOG_DATA'', contract = None, receipt.subId = None, rb = Some code,
      data = payload\<rparr>"

text \<open>
  A toy decoder for asset \<open>k\<close>: the payload text is the value of the event (its length
  for decimals); a receipt without payload does not decode. The store answers every lookup.
\<close>

definition textDecoder :: "string \<Rightarrow> env" where
  "textDecoder k =
     \<lparr>decodeLog = (\<lambda>payload logId.
        case payload of
          None \<Rightarrow> Inl DecodeError
        | Some p \<Rightarrow>
            if logId = ''7845998088195677205'' then
              Inr \<lparr>bits = k, logEvent.name = Some p, logEvent.symbol = None,
                   logEvent.decimals = None\<rparr>
            else if logId = ''12152039456660331088'' then
              Inr \<lparr>bits = k, logEvent.name = None, logEvent.symbol = Some p,
                   logEvent.decimals = None\<rparr>
            else if logId = ''18149631459970394923'' then
              Inr \<lparr>bits = k, logEvent.name = None, logEvent.symbol = None,
                   logEvent.decimals = Some (int (length p))\<rparr>
            else Inl DecodeError),
      fault = (\<lambda>assetId. None)\<rparr>"

definition contractAA :: string where
  "contractAA = ''0x'' @ replicate 64 (CHR ''a'')"

definition subIdBB :: string where
  "subIdBB = ''0x'' @ replicate 64 (CHR ''b'')"

section \<open>Lemmas about the handler's steps\<close>

lemma update_fresh: "map_of al k = None \<Longrightarrow> AList.update k v al = al @ [(k, v)]"
  by (induction al) (auto split: if_splits)

lemma getAsset_cached:
  "map_of m k = Some a \<Longrightarrow> getAsset env k (db, m) = (Inr a, db, m)"
  by (simp add: getAsset_def AList.update_triv)

lemma getAsset_load:
  "map_of m k = None \<Longrightarrow> fault env k = None \<Longrightarrow>
   getAsset env k (db, m) =
     (Inr (case rows db k of Some a \<Rightarrow> a | None \<Rightarrow> newAsset k),
      db\<lparr>findOneCalls := findOneCalls db @ [k]\<rparr>,
      m @ [(k, case rows db k of Some a \<Rightarrow> a | None \<Rightarrow> newAsset k)])"
  by (simp add: getAsset_def findOne_def update_fresh split: option.splits)

lemma getAsset_fault:
  "map_of m k = None \<Longrightarrow> fault env k = Some e \<Longrightarrow>
   getAsset env k (db, m) = (Inl e, db\<lparr>findOneCalls := findOneCalls db @ [k]\<rparr>, m)"
  by (simp add: getAsset_def findOne_def)

lemma getAsset_fst:
  "fst (getAsset env j (db, m)) =
     (case map_of m j of
        Some a \<Rightarrow> Inr a
      | None \<Rightarrow>
          (case fault env j of
             Some e \<Rightarrow> Inl e
           | None \<Rightarrow> Inr (case rows db j of Some a \<Rightarrow> a | None \<Rightarrow> newAsset j)))"
  by (simp add: getAsset_def findOne_def split: option.splits)

lemma getAsset_then_write:
  assumes "getAsset env k (db, m) = (Inr b, db1, m1)"
  shows "fst (getAsset env j (db1, AList.update k b' m1)) =
           (if j = k then Inr b' else fst (getAsset env j (db, m)))"
proof -
  from assms have "rows db1 = rows db" and "\<forall>i. i \<noteq> k \<longrightarrow> map_of m1 i = map_of m i"
    by (auto simp: getAsset_def findOne_def AList.update_conv'
             split: option.splits sum.splits)
  then show ?thesis
    by (simp add: getAsset_fst AList.update_conv' split: option.splits)
qed

lemma processMint_frame:
  assumes "processMint env r st = (Inr (), st')" and "fst (getAsset env j st) = Inr a"
  shows "\<exists>a'. fst (getAsset env j st') = Inr a' \<and> id' a' = id' a \<and> name a' = name a \<and>
              symbol a' = symbol a \<and> decimals a' = decimals a"
proof -
  obtain db m where st: "st = (db, m)" by (cases st)
  from assms(1) obtain c s b db1 m1 where
    c: "contract r = Some c" and s: "receipt.subId r = Some s" and
    g: "getAsset env (getAssetId c s) (db, m) = (Inr b, db1, m1)" and
    st': "st' = (db1, AList.update (getAssetId c s) (b\<lparr>contractId := Some c, subId := Some s\<rparr>) m1)"
    by (auto simp: processMint_def st split: option.splits sum.splits prod.splits)
  from g have b: "fst (getAsset env (getAssetId c s) (db, m)) = Inr b" by simp
  show ?thesis
    using assms(2) b unfolding st st' getAsset_then_write [OF g]
    by auto
qed

lemma setName_frame:
  assumes "setName env r st = (Inr (), st')" and "fst (getAsset env j st) = Inr a"
  shows "\<exists>a'. fst (getAsset env j st') = Inr a' \<and> id' a' = id' a \<and>
              contractId a' = contractId a \<and> subId a' = subId a \<and>
              symbol a' = symbol a \<and> decimals a' = decimals a \<and>
              (name a' = name a \<or>
               (\<exists>ev. decodeLog env (data r) (toString setNameEventId) = Inr ev \<and>
                     bits ev = j \<and> name a' = logEvent.name ev))"
proof -
  obtain db m where st: "st = (db, m)" by (cases st)
  from assms(1) obtain ev b db1 m1 where
    ev: "decodeLog env (data r) (toString setNameEventId) = Inr ev" and
    g: "getAsset env (bits ev) (db, m) = (Inr b, db1, m1)" and
    st': "st' = (db1, AList.update (bits ev) (b\<lparr>name := logEvent.name ev\<rparr>) m1)"
    by (auto simp: setName_def st split: option.splits sum.splits prod.splits)
  from g have b: "fst (getAsset env (bits ev) (db, m)) = Inr b" by simp
  show ?thesis
    using assms(2) b ev unfolding st st' getAsset_then_write [OF g]
    by auto
qed

lemma setSymbol_frame:
  assumes "setSymbol env r st = (Inr (), st')" and "fst (getAsset env j st) = Inr a"
  shows "\<exists>a'. fst (getAsset env j st') = Inr a' \<and> id' a' = id' a \<and>
              contractId a' = contractId a \<and> subId a' = subId a \<and>
              name a' = name a \<and> decimals a' = decimals a \<and>
              (symbol a' = symbol a \<or>
               (\<exists>ev. decodeLog env (data r) (toString setSymbolEventId) = Inr ev \<and>
                     bits ev = j \<and> symbol a' = logEvent.symbol ev))"
proof -
  obtain db m where st: "st = (db, m)" by (cases st)
  from assms(1) obtain ev b db1 m1 where
    ev: "decodeLog env (data r) (toString setSymbolEventId) = Inr ev" and
    g: "getAsset env (bits ev) (db, m) = (Inr b, db1, m1)" and
    st': "st' = (db1, AList.update (bits ev) (b\<lparr>symbol := logEvent.symbol ev\<rparr>) m1)"
    by (auto simp: setSymbol_def st split: option.splits sum.splits prod.splits)
  from g have b: "fst (getAsset env (bits ev) (db, m)) = Inr b" by simp
  show ?thesis
    using assms(2) b ev unfolding st st' getAsset_then_write [OF g]
    by auto
qed

lemma setDecimals_frame:
  assumes "setDecimals env r st = (Inr (), st')" and "fst (getAsset env j st) = Inr a"
  shows "\<exists>a'. fst (getAsset env j st') = Inr a' \<and> id' a' = id' a \<and>
              contractId a' = contractId a \<and> subId a' = subId a \<and>
              name a' = name a \<and> symbol a' = symbol a \<and>
              (decimals a' = decimals a \<or>
               (\<exists>ev. decodeLog env (data r) (toString setDecimalsEventId) = Inr ev \<and>
                     bits ev = j \<and> decimals a' = logEvent.decimals ev))"
proof -
  obtain db m where st: "st = (db, m)" by (cases st)
  from assms(1) obtain ev b db1 m1 where
    ev: "decodeLog env (data r) (toString setDecimalsEventId) = Inr ev" and
    g: "getAsset env (bits ev) (db, m) = (Inr b, db1, m1)" and
    st': "st' = (db1, AList.update (bits ev) (b\<lparr>decimals := logEvent.decimals ev\<rparr>) m1)"
    by (auto simp: setDecimals_def st split: option.splits sum.splits prod.splits)
  from g have b: "fst (getAsset env (bits ev) (db, m)) = Inr b" by simp
  show ?thesis
    using assms(2) b ev unfolding st st' getAsset_then_write [OF g]
    by auto
qed

lemma processMint_view:
  assumes "processMint env r st = (Inr (), st')" and "fst (getAsset env j st) = Inr a"
  shows "\<exists>c s. contract r = Some c \<and> receipt.subId r = Some s \<and>
     fst (getAsset env j st') =
       Inr (if j = getAssetId c s then a\<lparr>contractId := Some c, subId := Some s\<rparr> else a)"
proof -
  obtain db m where st: "st = (db, m)" by (cases st)
  from assms(1) obtain c s b db1 m1 where
    c: "contract r = Some c" and s: "receipt.subId r = Some s" and
    g: "getAsset env (getAssetId c s) (db, m) = (Inr b, db1, m1)" and
    st': "st' = (db1, AList.update (getAssetId c s) (b\<lparr>contractId := Some c, subId := Some s\<rparr>) m1)"
    by (auto simp: processMint_def st split: option.splits sum.splits prod.splits)
  from g have b: "fst (getAsset env (getAssetId c s) (db, m)) = Inr b" by simp
  show ?thesis
    using assms(2) b c s unfolding st st' getAsset_then_write [OF g]
    by auto
qed

lemma setName_view:
  assumes "setName env r st = (Inr (), st')" and "fst (getAsset env j st) = Inr a"
  shows "\<exists>ev. decodeLog env (data r) (toString setNameEventId) = Inr ev \<and>
     fst (getAsset env j st') =
       Inr (if j = bits ev then a\<lparr>name := logEvent.name ev\<rparr> else a)"
proof -
  obtain db m where st: "st = (db, m)" by (cases st)
  from assms(1) obtain ev b db1 m1 where
    ev: "decodeLog env (data r) (toString setNameEventId) = Inr ev" and
    g: "getAsset env (bits ev) (db, m) = (Inr b, db1, m1)" and
    st': "st' = (db1, AList.update (bits ev) (b\<lparr>name := logEvent.name ev\<rparr>) m1)"
    by (auto simp: setName_def st split: option.splits sum.splits prod.splits)
  from g have b: "fst (getAsset env (bits ev) (db, m)) = Inr b" by simp
  show ?thesis
    using assms(2) b ev unfolding st st' getAsset_then_write [OF g]
    by auto
qed

lemma setSymbol_view:
  assumes "setSymbol env r st = (Inr (), st')" and "fst (getAsset env j st) = Inr a"
  shows "\<exists>ev. decodeLog env (data r) (toString setSymbolEventId) = Inr ev \<and>
     fst (getAsset env j st') =
       Inr (if j = bits ev then a\<lparr>symbol := logEvent.symbol ev\<rparr> else a)"
proof -
  obtain db m where st: "st = (db, m)" by (cases st)
  from assms(1) obtain ev b db1 m1 where
    ev: "decodeLog env (data r) (toString setSymbolEventId) = Inr ev" and
    g: "getAsset env (bits ev) (db, m) = (Inr b, db1, m1)" and
    st': "st' = (db1, AList.update (bits ev) (b\<lparr>symbol := logEvent.symbol ev\<rparr>) m1)"
    by (auto simp: setSymbol_def st split: option.splits sum.splits prod.splits)
  from g have b: "fst (getAsset env (bits ev) (db, m)) = Inr b" by simp
  show ?thesis
    using assms(2) b ev unfolding st st' getAsset_then_write [OF g]
    by auto
qed

lemma setDecimals_view:
  assumes "setDecimals env r st = (Inr (), st')" and "fst (getAsset env j st) = Inr a"
  shows "\<exists>ev. decodeLog env (data r) (toString setDecimalsEventId) = Inr ev \<and>
     fst (getAsset env j st') =
       Inr (if j = bits ev then a\<lparr>decimals := logEvent.decimals ev\<rparr> else a)"
proof -
  obtain db m where st: "st = (db, m)" by (cases st)
  from assms(1) obtain ev b db1 m1 where
    ev: "decodeLog env (data r) (toString setDecimalsEventId) = Inr ev" and
    g: "getAsset env (bits ev) (db, m) = (Inr b, db1, m1)" and
    st': "st' = (db1, AList.update (bits ev) (b\<lparr>decimals := logEvent.decimals ev\<rparr>) m1)"
    by (auto simp: setDecimals_def st split: option.splits sum.splits prod.splits)
  from g have b: "fst (getAsset env (bits ev) (db, m)) = Inr b" by simp
  show ?thesis
    using assms(2) b ev unfolding st st' getAsset_then_write [OF g]
    by auto
qed

lemma event_ids_distinct:
  "setNameEventId \<noteq> setSymbolEventId" "setNameEventId \<noteq> setDecimalsEventId"
  "setSymbolEventId \<noteq> setDecimalsEventId"
  by (simp_all add: setNameEventId_def setSymbolEventId_def setDecimalsEventId_def)

lemma processReceipt_cases:
  "processReceipt env r st =
     (if receiptType r = ''MINT'' then
        (case processMint env r st of (Inl e, st') \<Rightarrow> (Inl e, st') | (Inr u, st') \<Rightarrow> (Inr (), st'))
      else if receiptType r = ''LOG_DATA'' then
        (if rb r = Some setNameEventId then setName env r st
         else if rb r = Some setSymbolEventId then setSymbol env r st
         else if rb r = Some setDecimalsEventId then setDecimals env r st
         else (Inr (), st))
      else (Inr (), st))"
  by (auto simp: processReceipt_def processLogData_def split: sum.splits prod.splits)

lemma proceeds_refl: "proceeds st st"
  by (simp add: proceeds_def)

lemma proceeds_trans: "proceeds a b \<Longrightarrow> proceeds b c \<Longrightarrow> proceeds a c"
  by (simp add: proceeds_def)

lemma getAsset_proceeds: "getAsset env k st = (res, st') \<Longrightarrow> proceeds st st'"
  by (cases st)
     (auto simp: getAsset_def findOne_def proceeds_def AList.update_conv'
           split: option.splits sum.splits)

lemma write_proceeds:
  "proceeds st (db, m) \<Longrightarrow> proceeds st (db, AList.update k v m)"
  by (simp add: proceeds_def AList.update_conv')

lemma processMint_proceeds: "processMint env r st = (res, st') \<Longrightarrow> proceeds st st'"
  by (auto simp: processMint_def proceeds_refl split: option.splits sum.splits prod.splits
           dest!: getAsset_proceeds intro: write_proceeds)

lemma setName_proceeds: "setName env r st = (res, st') \<Longrightarrow> proceeds st st'"
  by (auto simp: setName_def proceeds_refl split: option.splits sum.splits prod.splits
           dest!: getAsset_proceeds intro: write_proceeds)

lemma setSymbol_proceeds: "setSymbol env r st = (res, st') \<Longrightarrow> proceeds st st'"
  by (auto simp: setSymbol_def proceeds_refl split: option.splits sum.splits prod.splits
           dest!: getAsset_proceeds intro: write_proceeds)

lemma setDecimals_proceeds: "setDecimals env r st = (res, st') \<Longrightarrow> proceeds st st'"
  by (auto simp: setDecimals_def proceeds_refl split: option.splits sum.splits prod.splits
           dest!: getAsset_proceeds intro: write_proceeds)

lemma processReceipt_proceeds: "processReceipt env r st = (res, st') \<Longrightarrow> proceeds st st'"
  by (auto simp: processReceipt_cases proceeds_refl split: if_splits sum.splits prod.splits
           dest!: processMint_proceeds setName_proceeds setSymbol_proceeds
                  setDecimals_proceeds)

lemma processReceipts_proceeds: "processReceipts env rs st = (res, st') \<Longrightarrow> proceeds st st'"
proof (induction rs arbitrary: st)
  case Nil
  then show ?case by (simp add: proceeds_refl)
next
  case (Cons r rs)
  obtain res1 st1 where step: "processReceipt env r st = (res1, st1)"
    by (cases "processReceipt env r st")
  have p1: "proceeds st st1"
    using step by (rule processReceipt_proceeds)
  show ?case
  proof (cases res1)
    case (Inl e)
    with Cons.prems step p1 show ?thesis by simp
  next
    case (Inr u)
    with Cons.prems step have "processReceipts env rs st1 = (res, st')" by simp
    then have "proceeds st1 st'" by (rule Cons.IH)
    with p1 show ?thesis by (rule proceeds_trans)
  qed
qed

lemma processBlocks_proceeds: "processBlocks env bs st = (res, st') \<Longrightarrow> proceeds st st'"
proof (induction bs arbitrary: st)
  case Nil
  then show ?case by (simp add: proceeds_refl)
next
  case (Cons b bs)
  obtain res1 st1 where step: "processReceipts env (receipts b) st = (res1, st1)"
    by (cases "processReceipts env (receipts b) st")
  have p1: "proceeds st st1"
    using step by (rule processReceipts_proceeds)
  show ?case
  proof (cases res1)
    case (Inl e)
    with Cons.prems step p1 show ?thesis by simp
  next
    case (Inr u)
    with Cons.prems step have "processBlocks env bs st1 = (res, st')" by simp
    then have "proceeds st1 st'" by (rule Cons.IH)
    with p1 show ?thesis by (rule proceeds_trans)
  qed
qed

lemma toString_ids:
  "toString setNameEventId = ''7845998088195677205''"
  "toString setSymbolEventId = ''12152039456660331088''"
  "toString setDecimalsEventId = ''18149631459970394923''"
  by (simp_all add: toString.simps setNameEventId_def setSymbolEventId_def
        setDecimalsEventId_def)

lemma processReceipts_append:
  "processReceipts env (xs @ ys) st =
     (case processReceipts env xs st of
        (Inl e, st') \<Rightarrow> (Inl e, st')
      | (Inr u, st') \<Rightarrow> processReceipts env ys st')"
  by (induction xs arbitrary: st) (auto split: sum.splits prod.splits)

lemma processBlocks_concat:
  "processBlocks env bs st = processReceipts env (concat (map receipts bs)) st"
  by (induction bs arbitrary: st)
     (auto simp: processReceipts_append split: sum.splits prod.splits)

lemma bufferFromHex_AA_BB:
  "bufferFromHex (drop 2 contractAA @ drop 2 subIdBB) = replicate 32 0xAA @ replicate 32 0xBB"
  by code_simp

lemma getAsset_held:
  "map_of (snd st) k = Some a \<Longrightarrow> fst (getAsset env k st) = Inr a"
  by (cases st) (simp add: getAsset_fst)

lemma held_after:
  assumes "proceeds st st'" and "map_of (snd st) k = Some a"
    and "fst (getAsset env k st') = Inr a'"
  shows "map_of (snd st') k = Some a'"
proof -
  from assms(1,2) obtain b where b: "map_of (snd st') k = Some b"
    by (auto simp: proceeds_def)
  then have "fst (getAsset env k st') = Inr b"
    by (rule getAsset_held)
  with assms(3) b show ?thesis by simp
qed

lemma processReceipt_name_kept:
  assumes step: "processReceipt env r st = (Inr (), st')"
    and other: "\<not> setsNameOf env k r"
    and held: "map_of (snd st) k = Some a"
  shows "\<exists>a'. map_of (snd st') k = Some a' \<and> name a' = name a"
proof -
  have view: "fst (getAsset env k st) = Inr a"
    using held by (rule getAsset_held)
  have adv: "proceeds st st'"
    using step by (rule processReceipt_proceeds)
  have "\<exists>a'. fst (getAsset env k st') = Inr a' \<and> name a' = name a"
  proof (cases "receiptType r = ''MINT''")
    case True
    with step have "processMint env r st = (Inr (), st')"
      by (auto simp: processReceipt_cases split: sum.splits prod.splits)
    from processMint_frame [OF this view] show ?thesis by blast
  next
    case notMint: False
    show ?thesis
    proof (cases "receiptType r = ''LOG_DATA''")
      case False
      with notMint step view show ?thesis by (simp add: processReceipt_cases)
    next
      case True
      consider (n) "rb r = Some setNameEventId" | (s) "rb r = Some setSymbolEventId"
        | (d) "rb r = Some setDecimalsEventId"
        | (u) "rb r \<noteq> Some setNameEventId" "rb r \<noteq> Some setSymbolEventId"
              "rb r \<noteq> Some setDecimalsEventId"
        by blast
      then show ?thesis
      proof cases
        case n
        with notMint True step have "setName env r st = (Inr (), st')"
          by (simp add: processReceipt_cases)
        from setName_frame [OF this view] other True n show ?thesis
          by (auto simp: setsNameOf_def)
      next
        case s
        with notMint True step event_ids_distinct have "setSymbol env r st = (Inr (), st')"
          by (simp add: processReceipt_cases)
        from setSymbol_frame [OF this view] show ?thesis by blast
      next
        case d
        with notMint True step event_ids_distinct have "setDecimals env r st = (Inr (), st')"
          by (simp add: processReceipt_cases)
        from setDecimals_frame [OF this view] show ?thesis by blast
      next
        case u
        with notMint True step view show ?thesis by (simp add: processReceipt_cases)
      qed
    qed
  qed
  then obtain a' where "fst (getAsset env k st') = Inr a'" and n: "name a' = name a"
    by blast
  with adv held have "map_of (snd st') k = Some a'"
    by (simp add: held_after)
  with n show ?thesis by blast
qed

lemma processReceipts_name_kept:
  assumes "processReceipts env rs st = (Inr (), st')"
    and "\<forall>r \<in> set rs. \<not> setsNameOf env k r"
    and "map_of (snd st) k = Some a"
  shows "\<exists>a'. map_of (snd st') k = Some a' \<and> name a' = name a"
  using assms
proof (induction rs arbitrary: st a)
  case Nil
  then show ?case by simp
next
  case (Cons r rs)
  from Cons.prems(1) obtain st1 where
    step: "processReceipt env r st = (Inr (), st1)" and
    rest: "processReceipts env rs st1 = (Inr (), st')"
    by (auto split: sum.splits prod.splits)
  from Cons.prems(2) have r: "\<not> setsNameOf env k r" and
    rs: "\<forall>r \<in> set rs. \<not> setsNameOf env k r"
    by simp_all
  from processReceipt_name_kept [OF step r Cons.prems(3)] obtain a1 where
    a1: "map_of (snd st1) k = Some a1" and n1: "name a1 = name a"
    by blast
  from Cons.IH [OF rest rs a1] n1 show ?case by auto
qed

lemma processReceipt_setName:
  assumes "processReceipt env r st = (Inr (), st')"
    and "receiptType r = ''LOG_DATA''" and "rb r = Some setNameEventId"
    and "decodeLog env (data r) (toString setNameEventId) = Inr ev"
  shows "\<exists>a'. map_of (snd st') (bits ev) = Some a' \<and> name a' = logEvent.name ev"
  using assms
  by (cases st)
     (auto simp: processReceipt_cases setName_def AList.update_conv'
           split: sum.splits prod.splits)

lemma last_setName_wins:
  assumes run: "processReceipts env (before @ [r] @ post) st = (Inr (), st')"
    and r: "receiptType r = ''LOG_DATA''" "rb r = Some setNameEventId"
      "decodeLog env (data r) (toString setNameEventId) = Inr ev"
    and post: "\<forall>r' \<in> set post. \<not> setsNameOf env (bits ev) r'"
  shows "\<exists>a'. map_of (snd st') (bits ev) = Some a' \<and> name a' = logEvent.name ev"
proof -
  from run obtain st1 st2 where
    "processReceipts env before st = (Inr (), st1)" and
    step: "processReceipt env r st1 = (Inr (), st2)" and
    rest: "processReceipts env post st2 = (Inr (), st')"
    by (auto simp: processReceipts_append split: sum.splits prod.splits)
  from processReceipt_setName [OF step r] obtain a2 where
    a2: "map_of (snd st2) (bits ev) = Some a2" and n2: "name a2 = logEvent.name ev"
    by blast
  from processReceipts_name_kept [OF rest post a2] n2 show ?thesis by auto
qed

lemma handler_upserts:
  assumes "handler env c = (Inr (), db')"
  shows "\<exists>db m. processReceipts env (concat (map receipts (blocks c))) (store c, []) =
            (Inr (), db, m) \<and> db' = upsert (map snd m) db"
  using assms
  by (auto simp: handler_def processBlocks_concat split: sum.splits prod.splits)

lemma mint_name_symbol_orders:
  assumes m: "receiptType rM = ''MINT''" "contract rM = Some cid" "receipt.subId rM = Some sid"
    and n: "receiptType rN = ''LOG_DATA''" "rb rN = Some setNameEventId"
      "decodeLog env (data rN) (toString setNameEventId) = Inr evN"
      "bits evN = getAssetId cid sid"
    and s: "receiptType rS = ''LOG_DATA''" "rb rS = Some setSymbolEventId"
      "decodeLog env (data rS) (toString setSymbolEventId) = Inr evS"
      "bits evS = getAssetId cid sid"
  shows "processReceipts env [rN, rS, rM] (db, []) = processReceipts env [rM, rN, rS] (db, [])"
    and "fault env (getAssetId cid sid) = None \<Longrightarrow>
      processReceipts env [rM, rN, rS] (db, []) =
        (Inr (), db\<lparr>findOneCalls := findOneCalls db @ [getAssetId cid sid]\<rparr>,
         [(getAssetId cid sid,
           (case rows db (getAssetId cid sid) of
              Some stored \<Rightarrow> stored
            | None \<Rightarrow> newAsset (getAssetId cid sid))
           \<lparr>contractId := Some cid, subId := Some sid, name := logEvent.name evN,
            symbol := logEvent.symbol evS\<rparr>)])"
proof -
  have neq: "setSymbolEventId \<noteq> setNameEventId"
    using event_ids_distinct by simp
  have lm: "''LOG_DATA'' \<noteq> ''MINT''" by simp
  show "processReceipts env [rN, rS, rM] (db, []) = processReceipts env [rM, rN, rS] (db, [])"
  proof (cases "fault env (getAssetId cid sid)")
    case None
    with m n s neq show ?thesis
      by (simp add: processReceipt_cases processMint_def setName_def setSymbol_def
            getAsset_load getAsset_cached)
  next
    case (Some e)
    with m n s neq show ?thesis
      by (simp add: processReceipt_cases processMint_def setName_def setSymbol_def
            getAsset_fault)
  qed
  show "processReceipts env [rM, rN, rS] (db, []) =
        (Inr (), db\<lparr>findOneCalls := findOneCalls db @ [getAssetId cid sid]\<rparr>,
         [(getAssetId cid sid,
           (case rows db (getAssetId cid sid) of
              Some stored \<Rightarrow> stored
            | None \<Rightarrow> newAsset (getAssetId cid sid))
           \<lparr>contractId := Some cid, subId := Some sid, name := logEvent.name evN,
            symbol := logEvent.symbol evS\<rparr>)])"
    if "fault env (getAssetId cid sid) = None"
    using that m n s neq
    by (simp add: processReceipt_cases processMint_def setName_def setSymbol_def
          getAsset_load getAsset_cached)
qed

lemma list_all_update:
  "list_all P m \<Longrightarrow> P (k, v) \<Longrightarrow> list_all P (AList.update k v m)"
  by (induction m) auto

lemma consistent_update:
  "consistent m \<Longrightarrow> id' v = k \<Longrightarrow> consistent (AList.update k v m)"
  by (simp add: consistent_def AList.distinct_update list_all_update)

lemma consistent_id:
  "consistent m \<Longrightarrow> map_of m k = Some a \<Longrightarrow> id' a = k"
  by (induction m) (auto simp: consistent_def split: if_splits)

lemma getAsset_consistent:
  assumes "getAsset env k (db, m) = (Inr a, db', m')"
    and "keyed (rows db)" and "consistent m"
  shows "consistent m' \<and> id' a = k"
proof (cases "map_of m k")
  case None
  with assms(1) have m': "m' = AList.update k a m"
    and a: "a = (case rows db k of Some stored \<Rightarrow> stored | None \<Rightarrow> newAsset k)"
    by (auto simp: getAsset_def findOne_def split: option.splits sum.splits)
  from a assms(2) have "id' a = k"
    by (auto simp: keyed_def newAsset_def split: option.splits)
  with assms(3) m' show ?thesis
    by (simp add: consistent_update)
next
  case (Some b)
  with assms(1) have "m' = m" and "a = b"
    by (simp_all add: getAsset_cached)
  with assms(3) Some show ?thesis
    by (simp add: consistent_id)
qed

lemma processMint_consistent:
  assumes "processMint env r (db, m) = (Inr (), db', m')"
    and "keyed (rows db)" and "consistent m"
  shows "consistent m'"
proof -
  from assms(1) obtain c s b m1 where
    g: "getAsset env (getAssetId c s) (db, m) = (Inr b, db', m1)" and
    m': "m' = AList.update (getAssetId c s) (b\<lparr>contractId := Some c, subId := Some s\<rparr>) m1"
    by (auto simp: processMint_def split: option.splits sum.splits prod.splits)
  from getAsset_consistent [OF g assms(2,3)] m' show ?thesis
    by (simp add: consistent_update)
qed

lemma setName_consistent:
  assumes "setName env r (db, m) = (Inr (), db', m')"
    and "keyed (rows db)" and "consistent m"
  shows "consistent m'"
proof -
  from assms(1) obtain ev b m1 where
    "decodeLog env (data r) (toString setNameEventId) = Inr ev" and
    g: "getAsset env (bits ev) (db, m) = (Inr b, db', m1)" and
    m': "m' = AList.update (bits ev) (b\<lparr>name := logEvent.name ev\<rparr>) m1"
    by (auto simp: setName_def split: option.splits sum.splits prod.splits)
  from getAsset_consistent [OF g assms(2,3)] m' show ?thesis
    by (simp add: consistent_update)
qed

lemma setSymbol_consistent:
  assumes "setSymbol env r (db, m) = (Inr (), db', m')"
    and "keyed (rows db)" and "consistent m"
  shows "consistent m'"
proof -
  from assms(1) obtain ev b m1 where
    "decodeLog env (data r) (toString setSymbolEventId) = Inr ev" and
    g: "getAsset env (bits ev) (db, m) = (Inr b, db', m1)" and
    m': "m' = AList.update (bits ev) (b\<lparr>symbol := logEvent.symbol ev\<rparr>) m1"
    by (auto simp: setSymbol_def split: option.splits sum.splits prod.splits)
  from getAsset_consistent [OF g assms(2,3)] m' show ?thesis
    by (simp add: consistent_update)
qed

lemma setDecimals_consistent:
  assumes "setDecimals env r (db, m) = (Inr (), db', m')"
    and "keyed (rows db)" and "consistent m"
  shows "consistent m'"
proof -
  from assms(1) obtain ev b m1 where
    "decodeLog env (data r) (toString setDecimalsEventId) = Inr ev" and
    g: "getAsset env (bits ev) (db, m) = (Inr b, db', m1)" and
    m': "m' = AList.update (bits ev) (b\<lparr>decimals := logEvent.decimals ev\<rparr>) m1"
    by (auto simp: setDecimals_def split: option.splits sum.splits prod.splits)
  from getAsset_consistent [OF g assms(2,3)] m' show ?thesis
    by (simp add: consistent_update)
qed

lemma processReceipt_consistent:
  assumes "processReceipt env r (db, m) = (Inr (), db', m')"
    and "keyed (rows db)" and "consistent m"
  shows "consistent m'"
  using assms
  by (auto simp: processReceipt_cases split: if_splits sum.splits prod.splits
           dest: processMint_consistent setName_consistent setSymbol_consistent
                 setDecimals_consistent)

lemma processReceipts_consistent:
  assumes "processReceipts env rs (db, m) = (Inr (), db', m')"
    and "keyed (rows db)" and "consistent m"
  shows "consistent m'"
  using assms
proof (induction rs arbitrary: db m)
  case Nil
  then show ?case by simp
next
  case (Cons r rs)
  from Cons.prems(1) obtain db1 m1 where
    step: "processReceipt env r (db, m) = (Inr (), db1, m1)" and
    rest: "processReceipts env rs (db1, m1) = (Inr (), db', m')"
    by (auto split: sum.splits prod.splits)
  from step have "proceeds (db, m) (db1, m1)"
    by (rule processReceipt_proceeds)
  with Cons.prems(2) have k1: "keyed (rows db1)"
    by (simp add: proceeds_def)
  from processReceipt_consistent [OF step Cons.prems(2,3)] have "consistent m1" .
  from Cons.IH [OF rest k1 this] show ?case .
qed

lemma upsert_rows:
  assumes "consistent m"
  shows "rows (upsert (map snd m) db) = rows db ++ map_of m"
proof -
  have "foldl (\<lambda>t a. t(id' a \<mapsto> a)) t0 (map snd m) = t0 ++ map_of m" for t0
    using assms
  proof (induction m arbitrary: t0)
    case Nil
    then show ?case by simp
  next
    case (Cons p m)
    obtain k a where p: "p = (k, a)" by (cases p)
    from Cons.prems p have ka: "id' a = k" and fresh: "k \<notin> fst ` set m"
      and rest: "consistent m"
      by (auto simp: consistent_def)
    from fresh have none: "map_of m k = None"
      by (simp add: map_of_eq_None_iff)
    have "foldl (\<lambda>t a. t(id' a \<mapsto> a)) t0 (map snd (p # m)) =
        foldl (\<lambda>t a. t(id' a \<mapsto> a)) (t0(k \<mapsto> a)) (map snd m)"
      using p ka by simp
    also have "\<dots> = t0(k \<mapsto> a) ++ map_of m"
      by (rule Cons.IH [OF rest])
    also have "\<dots> = t0 ++ map_of (p # m)"
      using none p by (auto simp: map_add_def fun_eq_iff split: option.splits)
    finally show ?case .
  qed
  then show ?thesis
    by (simp add: upsert_def)
qed

lemma handler_rows:
  assumes "processBlocks env (blocks c) (store c, []) = (Inr (), db, m)"
    and "keyed (rows (store c))"
  shows "rows (snd (handler env c)) = rows (store c) ++ map_of m"
proof -
  from assms(1) have run: "processReceipts env (concat (map receipts (blocks c))) (store c, []) =
      (Inr (), db, m)"
    by (simp add: processBlocks_concat)
  have "consistent []" by (simp add: consistent_def)
  from processReceipts_consistent [OF run assms(2) this] have cm: "consistent m" .
  from assms(1) have "proceeds (store c, []) (db, m)"
    by (rule processBlocks_proceeds)
  then have "rows db = rows (store c)" by (simp add: proceeds_def)
  with assms(1) cm show ?thesis
    by (simp add: handler_def upsert_rows)
qed

lemma length_round256: "length (round256 s kw) = length s"
  by (induction s kw rule: round256.induct) (simp_all add: Let_def)

lemma length_foldl_round256: "length (foldl round256 s kws) = length s"
  by (induction kws arbitrary: s) (simp_all add: length_round256)

lemma length_compress: "length (compress h blk) = length h"
  by (simp add: compress_def length_foldl_round256)

lemma length_sha_blocks: "length (sha_blocks n h bs) = length h"
  by (induction n arbitrary: h bs) (simp_all add: length_compress)

lemma length_concat_bytes32: "length (concat (map bytes32 ws)) = 4 * length ws"
  by (induction ws) (simp_all add: bytes32_def)

lemma length_sha256: "length (sha256 m) = 32"
  by (simp add: sha256_def Let_def length_concat_bytes32 length_sha_blocks H256_def)

lemma length_digestHex: "length (digestHex bs) = 2 * length bs"
  by (induction bs) (simp_all add: digestHex_def)

lemma hexDigit_in: "n < 16 \<Longrightarrow> hexDigit n \<in> set ''0123456789abcdef''"
  unfolding hexDigit_def by (rule nth_mem) simp

lemma set_digestHex: "set (digestHex bs) \<subseteq> set ''0123456789abcdef''"
proof -
  have "hexDigit (unat b div 16) \<in> set ''0123456789abcdef'' \<and>
        hexDigit (unat b mod 16) \<in> set ''0123456789abcdef''" for b :: byte
  proof -
    have "unat b < 256" using unsigned_less [of b, where ?'a = nat] by simp
    then have "unat b div 16 < 16" and "unat b mod 16 < 16" by simp_all
    then show ?thesis by (simp only: hexDigit_in)
  qed
  then show ?thesis
    unfolding digestHex_def by (induction bs) auto
qed

text \<open>The digest of the empty message, as FIPS 180-4 gives it.\<close>

lemma sha256_empty:
  "digestHex (sha256 []) = ''e3b0c44298fc1c149afbf4c8996fb92427ae41e4649b934ca495991b7852b855''"
  by code_simp

section \<open>The claims\<close>

text \<open>
  C5. A LOG_DATA receipt whose \<open>rb\<close> is none of the three known codes raises no error and
  leaves the whole state as it was: no record is changed, none is added to
  \<^verbatim>\<open>assetsById\<close>, and the store is not even read.
\<close>

theorem unknown_discriminator_is_noop:
  "receiptType r = ''LOG_DATA'' \<Longrightarrow> rb r \<noteq> Some setNameEventId \<Longrightarrow>
   rb r \<noteq> Some setSymbolEventId \<Longrightarrow> rb r \<noteq> Some setDecimalsEventId \<Longrightarrow>
   processReceipt env r st = (Inr (), st)"
  by (simp add: processReceipt_def processLogData_def)

theorem unknown_discriminator_is_noop_witness:
  "receiptType (logReceipt 42 (Some ''ff'')) = ''LOG_DATA'' \<and>
   rb (logReceipt 42 (Some ''ff'')) \<noteq> Some setNameEventId \<and>
   rb (logReceipt 42 (Some ''ff'')) \<noteq> Some setSymbolEventId \<and>
   rb (logReceipt 42 (Some ''ff'')) \<noteq> Some setDecimalsEventId \<and>
   processReceipt (textDecoder ''0x01'') (logReceipt 42 (Some ''ff''))
       (emptyStore, [(''0x01'', newAsset ''0x01'')]) =
     (Inr (), emptyStore, [(''0x01'', newAsset ''0x01'')])"
  using unknown_discriminator_is_noop
    [of "logReceipt 42 (Some ''ff'')" "textDecoder ''0x01''"
        "(emptyStore, [(''0x01'', newAsset ''0x01'')])"]
  by (simp add: logReceipt_def setNameEventId_def setSymbolEventId_def setDecimalsEventId_def)

text \<open>
  C7. When the handler leaves with an error, the store has received no upsert: its rows
  and its list of upsert calls are those it had when the batch started.
\<close>

theorem abort_leaves_store_unmodified:
  "fst (handler env c) = Inl e \<Longrightarrow>
   rows (snd (handler env c)) = rows (store c) \<and>
   upsertCalls (snd (handler env c)) = upsertCalls (store c)"
proof -
  assume abort: "fst (handler env c) = Inl e"
  obtain res db m where run: "processBlocks env (blocks c) (store c, []) = (res, db, m)"
    by (cases "processBlocks env (blocks c) (store c, [])")
  from run have "proceeds (store c, []) (db, m)"
    by (rule processBlocks_proceeds)
  moreover from abort run have "snd (handler env c) = db"
    by (cases res) (simp_all add: handler_def)
  ultimately show ?thesis by (simp add: proceeds_def)
qed

theorem abort_leaves_store_unmodified_witness:
  "fst (handler (textDecoder (getAssetId contractAA subIdBB))
          \<lparr>blocks = [\<lparr>receipts = [mintReceipt contractAA subIdBB,
                                   logReceipt setNameEventId None]\<rparr>],
           store = emptyStore\<rparr>) = Inl DecodeError \<and>
   rows (snd (handler (textDecoder (getAssetId contractAA subIdBB))
          \<lparr>blocks = [\<lparr>receipts = [mintReceipt contractAA subIdBB,
                                   logReceipt setNameEventId None]\<rparr>],
           store = emptyStore\<rparr>)) = Map.empty \<and>
   upsertCalls (snd (handler (textDecoder (getAssetId contractAA subIdBB))
          \<lparr>blocks = [\<lparr>receipts = [mintReceipt contractAA subIdBB,
                                   logReceipt setNameEventId None]\<rparr>],
           store = emptyStore\<rparr>)) = []"
proof -
  have abort: "fst (handler (textDecoder (getAssetId contractAA subIdBB))
          \<lparr>blocks = [\<lparr>receipts = [mintReceipt contractAA subIdBB,
                                   logReceipt setNameEventId None]\<rparr>],
           store = emptyStore\<rparr>) = Inl DecodeError"
    by (simp add: handler_def processReceipt_cases processMint_def setName_def
          getAsset_load mintReceipt_def logReceipt_def textDecoder_def emptyStore_def
          toString_ids)
  from abort abort_leaves_store_unmodified [OF abort] show ?thesis
    by (simp add: emptyStore_def)
qed

text \<open>
  C10. Each handler writes only its own fields, and only on the record it addresses. For
  any asset id \<open>j\<close>, let \<open>a\<close> be the record the batch holds for \<open>j\<close> before a receipt is
  processed (what \<^verbatim>\<open>getAsset\<close> yields: the in-memory instance, else the stored row, else
  the fresh record) and \<open>a'\<close> the one it holds afterwards. Then \<open>id\<close> is never changed; a
  MINT leaves name, symbol and decimals as they were; setName leaves contractId, subId,
  symbol and decimals; setSymbol leaves contractId, subId, name and decimals; setDecimals
  leaves contractId, subId, name and symbol. More exactly: when \<open>j\<close> is the id the receipt
  addresses (the derived id of a MINT, the decoded \<^verbatim>\<open>asset.bits\<close> of a log), \<open>a'\<close> is \<open>a\<close>
  with the handler's own fields set from the receipt and nothing else changed; for every
  other id \<open>a'\<close> is \<open>a\<close>; and a receipt that no handler takes leaves every record as it
  was.
\<close>

theorem handlers_write_only_their_fields:
  assumes "processReceipt env r st = (Inr (), st')" and "fst (getAsset env j st) = Inr a"
  shows "\<exists>a'. fst (getAsset env j st') = Inr a' \<and> id' a' = id' a \<and>
     (receiptType r = ''MINT'' \<longrightarrow>
        name a' = name a \<and> symbol a' = symbol a \<and> decimals a' = decimals a \<and>
        (\<exists>c s. contract r = Some c \<and> receipt.subId r = Some s \<and>
           a' = (if j = getAssetId c s then a\<lparr>contractId := Some c, subId := Some s\<rparr>
                 else a))) \<and>
     (receiptType r = ''LOG_DATA'' \<and> rb r = Some setNameEventId \<longrightarrow>
        contractId a' = contractId a \<and> subId a' = subId a \<and>
        symbol a' = symbol a \<and> decimals a' = decimals a \<and>
        (\<exists>ev. decodeLog env (data r) (toString setNameEventId) = Inr ev \<and>
           a' = (if j = bits ev then a\<lparr>name := logEvent.name ev\<rparr> else a))) \<and>
     (receiptType r = ''LOG_DATA'' \<and> rb r = Some setSymbolEventId \<longrightarrow>
        contractId a' = contractId a \<and> subId a' = subId a \<and>
        name a' = name a \<and> decimals a' = decimals a \<and>
        (\<exists>ev. decodeLog env (data r) (toString setSymbolEventId) = Inr ev \<and>
           a' = (if j = bits ev then a\<lparr>symbol := logEvent.symbol ev\<rparr> else a))) \<and>
     (receiptType r = ''LOG_DATA'' \<and> rb r = Some setDecimalsEventId \<longrightarrow>
        contractId a' = contractId a \<and> subId a' = subId a \<and>
        name a' = name a \<and> symbol a' = symbol a \<and>
        (\<exists>ev. decodeLog env (data r) (toString setDecimalsEventId) = Inr ev \<and>
           a' = (if j = bits ev then a\<lparr>decimals := logEvent.decimals ev\<rparr> else a))) \<and>
     (receiptType r \<noteq> ''MINT'' \<and>
      (receiptType r \<noteq> ''LOG_DATA'' \<or>
       rb r \<noteq> Some setNameEventId \<and> rb r \<noteq> Some setSymbolEventId \<and>
       rb r \<noteq> Some setDecimalsEventId) \<longrightarrow> a' = a)"
proof (cases "receiptType r = ''MINT''")
  case True
  with assms(1) have "processMint env r st = (Inr (), st')"
    by (auto simp: processReceipt_cases split: sum.splits prod.splits)
  from processMint_view [OF this assms(2)] True show ?thesis by auto
next
  case notMint: False
  show ?thesis
  proof (cases "receiptType r = ''LOG_DATA''")
    case False
    with notMint assms show ?thesis by (auto simp: processReceipt_cases)
  next
    case True
    consider (n) "rb r = Some setNameEventId" | (s) "rb r = Some setSymbolEventId"
      | (d) "rb r = Some setDecimalsEventId"
      | (u) "rb r \<noteq> Some setNameEventId" "rb r \<noteq> Some setSymbolEventId"
            "rb r \<noteq> Some setDecimalsEventId"
      by blast
    then show ?thesis
    proof cases
      case n
      with notMint True assms(1) have "setName env r st = (Inr (), st')"
        by (simp add: processReceipt_cases)
      from setName_view [OF this assms(2)] n True notMint event_ids_distinct
      show ?thesis by auto
    next
      case s
      with notMint True assms(1) event_ids_distinct have "setSymbol env r st = (Inr (), st')"
        by (simp add: processReceipt_cases)
      from setSymbol_view [OF this assms(2)] s True notMint event_ids_distinct
      show ?thesis by auto
    next
      case d
      with notMint True assms(1) event_ids_distinct have "setDecimals env r st = (Inr (), st')"
        by (simp add: processReceipt_cases)
      from setDecimals_view [OF this assms(2)] d True notMint event_ids_distinct
      show ?thesis by auto
    next
      case u
      with notMint True assms show ?thesis by (auto simp: processReceipt_cases)
    qed
  qed
qed

theorem handlers_write_only_their_fields_witness:
  "processReceipt (textDecoder ''0x01'') (logReceipt setNameEventId (Some ''Token''))
       (emptyStore, [(''0x01'', newAsset ''0x01''), (''0x02'', newAsset ''0x02'')]) =
     (Inr (), emptyStore,
      [(''0x01'', (newAsset ''0x01'')\<lparr>name := Some ''Token''\<rparr>),
       (''0x02'', newAsset ''0x02'')]) \<and>
   fst (getAsset (textDecoder ''0x01'') ''0x02''
          (emptyStore, [(''0x01'', newAsset ''0x01''), (''0x02'', newAsset ''0x02'')])) =
     Inr (newAsset ''0x02'') \<and>
   (\<exists>a'. fst (getAsset (textDecoder ''0x01'') ''0x02''
              (emptyStore,
               [(''0x01'', (newAsset ''0x01'')\<lparr>name := Some ''Token''\<rparr>),
                (''0x02'', newAsset ''0x02'')])) = Inr a' \<and>
         id' a' = ''0x02'' \<and> contractId a' = None \<and> subId a' = None \<and>
         symbol a' = None \<and> decimals a' = None \<and> a' = newAsset ''0x02'')"
proof -
  let ?env = "textDecoder ''0x01''"
  let ?r = "logReceipt setNameEventId (Some ''Token'')"
  let ?st = "(emptyStore, [(''0x01'', newAsset ''0x01''), (''0x02'', newAsset ''0x02'')])"
  let ?st' = "(emptyStore,
      [(''0x01'', (newAsset ''0x01'')\<lparr>name := Some ''Token''\<rparr>),
       (''0x02'', newAsset ''0x02'')])"
  have step: "processReceipt ?env ?r ?st = (Inr (), ?st')"
    by (simp add: processReceipt_cases setName_def getAsset_cached logReceipt_def
          textDecoder_def toString_ids)
  have held: "fst (getAsset ?env ''0x02'' ?st) = Inr (newAsset ''0x02'')"
    by (simp add: getAsset_cached)
  have dec: "decodeLog ?env (data ?r) (toString setNameEventId) =
      Inr \<lparr>bits = ''0x01'', logEvent.name = Some ''Token'', logEvent.symbol = None,
           logEvent.decimals = None\<rparr>"
    by (simp add: textDecoder_def logReceipt_def toString_ids)
  from handlers_write_only_their_fields [OF step held] obtain a' where
    v: "fst (getAsset ?env ''0x02'' ?st') = Inr a'" and
    f: "receiptType ?r = ''LOG_DATA'' \<and> rb ?r = Some setNameEventId \<longrightarrow>
        contractId a' = contractId (newAsset ''0x02'') \<and> subId a' = subId (newAsset ''0x02'') \<and>
        symbol a' = symbol (newAsset ''0x02'') \<and> decimals a' = decimals (newAsset ''0x02'') \<and>
        (\<exists>ev. decodeLog ?env (data ?r) (toString setNameEventId) = Inr ev \<and>
           a' = (if ''0x02'' = bits ev then (newAsset ''0x02'')\<lparr>name := logEvent.name ev\<rparr>
                 else newAsset ''0x02''))"
    by blast
  have "receiptType ?r = ''LOG_DATA'' \<and> rb ?r = Some setNameEventId"
    by (simp add: logReceipt_def)
  with f dec have "a' = newAsset ''0x02''"
    by auto
  with v step held show ?thesis
    by (simp add: newAsset_def)
qed

text \<open>
  C8. Fetch-or-create. When the id is not yet in \<^verbatim>\<open>assetsById\<close> and the store answers,
  \<^verbatim>\<open>getAsset\<close> makes one point lookup; the stored row, if there is one, is the record
  returned and entered in the mapping, otherwise a record with the requested id and every
  other field null. From then on, whatever receipts the batch goes on to process, the id
  stays in the mapping and \<^verbatim>\<open>getAsset\<close> returns the entry held there and leaves the
  state, lookups included, as it is.
\<close>

theorem getAsset_fetch_or_create:
  assumes "map_of assetsById k = None" and "fault env k = None"
  shows "\<exists>a db' m'.
     getAsset env k (db, assetsById) = (Inr a, db', m') \<and>
     findOneCalls db' = findOneCalls db @ [k] \<and>
     a = (case rows db k of
            Some stored \<Rightarrow> stored
          | None \<Rightarrow> \<lparr>id' = k, contractId = None, subId = None, name = None, symbol = None,
                     decimals = None\<rparr>) \<and>
     m' = assetsById @ [(k, a)] \<and>
     getAsset env k (db', m') = (Inr a, db', m') \<and>
     (\<forall>rs res db2 m2. processReceipts env rs (db', m') = (res, db2, m2) \<longrightarrow>
        (\<exists>a2. map_of m2 k = Some a2 \<and> getAsset env k (db2, m2) = (Inr a2, db2, m2)))"
proof -
  define a where "a = (case rows db k of Some stored \<Rightarrow> stored | None \<Rightarrow> newAsset k)"
  define db' where "db' = db\<lparr>findOneCalls := findOneCalls db @ [k]\<rparr>"
  define m' where "m' = assetsById @ [(k, a)]"
  have first: "getAsset env k (db, assetsById) = (Inr a, db', m')"
    using assms by (simp add: getAsset_load a_def db'_def m'_def)
  have held: "map_of m' k = Some a"
    using assms(1) by (simp add: m'_def map_add_def)
  have again: "getAsset env k (db', m') = (Inr a, db', m')"
    using held by (rule getAsset_cached)
  have later: "\<exists>a2. map_of m2 k = Some a2 \<and> getAsset env k (db2, m2) = (Inr a2, db2, m2)"
    if "processReceipts env rs (db', m') = (res, db2, m2)" for rs res db2 m2
  proof -
    from that have "proceeds (db', m') (db2, m2)"
      by (rule processReceipts_proceeds)
    with held obtain a2 where "map_of m2 k = Some a2"
      by (auto simp: proceeds_def)
    then show ?thesis
      by (auto simp: getAsset_cached)
  qed
  have fresh: "a = (case rows db k of
            Some stored \<Rightarrow> stored
          | None \<Rightarrow> \<lparr>id' = k, contractId = None, subId = None, name = None, symbol = None,
                     decimals = None\<rparr>)"
    by (simp add: a_def newAsset_def split: option.splits)
  have lookup: "findOneCalls db' = findOneCalls db @ [k]"
    by (simp add: db'_def)
  from first lookup fresh m'_def again later show ?thesis
    by blast
qed

theorem getAsset_fetch_or_create_witness:
  "map_of ([] :: (string \<times> Asset) list) ''0x01'' = None \<and>
   fault (textDecoder ''0x01'') ''0x01'' = None \<and>
   getAsset (textDecoder ''0x01'') ''0x01'' (emptyStore, []) =
     (Inr (newAsset ''0x01''), emptyStore\<lparr>findOneCalls := [''0x01'']\<rparr>,
      [(''0x01'', newAsset ''0x01'')]) \<and>
   getAsset (textDecoder ''0x01'') ''0x01''
       (emptyStore\<lparr>findOneCalls := [''0x01'']\<rparr>, [(''0x01'', newAsset ''0x01'')]) =
     (Inr (newAsset ''0x01''), emptyStore\<lparr>findOneCalls := [''0x01'']\<rparr>,
      [(''0x01'', newAsset ''0x01'')])"
proof -
  have h1: "map_of ([] :: (string \<times> Asset) list) ''0x01'' = None" by simp
  have h2: "fault (textDecoder ''0x01'') ''0x01'' = None" by (simp add: textDecoder_def)
  from getAsset_fetch_or_create [OF h1 h2, of emptyStore] h1 h2 show ?thesis
    by (auto simp: emptyStore_def newAsset_def getAsset_load getAsset_cached)
qed

text \<open>
  C4. Processing the same MINT receipt twice in a row gives the very outcome and state
  that processing it once gives, from any state of the store and of \<^verbatim>\<open>assetsById\<close>.
  When processing it once succeeds, the record under the derived id carries the receipt's
  contract and sub-id; and so it does after the receipt has been processed a second time
  later in the batch, whatever receipts lie between the two.
\<close>

theorem mint_twice_same_as_once:
  assumes "receiptType r = ''MINT''"
  shows "processReceipts env [r, r] st = processReceipts env [r] st \<and>
     (\<forall>db' m'. processReceipts env [r] st = (Inr (), db', m') \<longrightarrow>
        (\<exists>c s a. contract r = Some c \<and> receipt.subId r = Some s \<and>
           map_of m' (getAssetId c s) = Some a \<and>
           contractId a = Some c \<and> subId a = Some s)) \<and>
     (\<forall>mid db' m'. processReceipts env ([r] @ mid @ [r]) st = (Inr (), db', m') \<longrightarrow>
        (\<exists>c s a. contract r = Some c \<and> receipt.subId r = Some s \<and>
           map_of m' (getAssetId c s) = Some a \<and>
           contractId a = Some c \<and> subId a = Some s))"
proof -
  have minted: "\<exists>c s a. contract r = Some c \<and> receipt.subId r = Some s \<and>
      map_of (snd st2) (getAssetId c s) = Some a \<and> contractId a = Some c \<and> subId a = Some s"
    if "processReceipt env r st1 = (Inr (), st2)" for st1 st2
    using that assms
    by (cases st1)
       (auto simp: processReceipt_cases processMint_def AList.update_conv'
             split: option.splits sum.splits prod.splits)
  have once: "\<exists>c s a. contract r = Some c \<and> receipt.subId r = Some s \<and>
      map_of m' (getAssetId c s) = Some a \<and> contractId a = Some c \<and> subId a = Some s"
    if "processReceipts env [r] st = (Inr (), db', m')" for db' m'
  proof -
    from that have "processReceipt env r st = (Inr (), db', m')"
      by (auto split: sum.splits prod.splits)
    from minted [OF this] show ?thesis by simp
  qed
  have later: "\<exists>c s a. contract r = Some c \<and> receipt.subId r = Some s \<and>
      map_of m' (getAssetId c s) = Some a \<and> contractId a = Some c \<and> subId a = Some s"
    if "processReceipts env ([r] @ mid @ [r]) st = (Inr (), db', m')" for mid db' m'
  proof -
    from that have "processReceipts env (([r] @ mid) @ [r]) st = (Inr (), db', m')"
      by simp
    then obtain st1 where "processReceipts env [r] st1 = (Inr (), db', m')"
      unfolding processReceipts_append [of env "[r] @ mid"]
      by (auto split: sum.splits prod.splits)
    then have "processReceipt env r st1 = (Inr (), db', m')"
      by (auto split: sum.splits prod.splits)
    from minted [OF this] show ?thesis by simp
  qed
  have same: "processReceipts env [r, r] st = processReceipts env [r] st"
  proof -
    obtain res st1 where first: "processMint env r st = (res, st1)"
      by (cases "processMint env r st")
    show ?thesis
    proof (cases res)
      case (Inl e)
      with first assms show ?thesis
        by (simp add: processReceipt_cases)
    next
      case (Inr u)
      obtain db m where st: "st = (db, m)" by (cases st)
      from first Inr obtain c s b db1 m1 where
        c: "contract r = Some c" and s: "receipt.subId r = Some s" and
        g: "getAsset env (getAssetId c s) (db, m) = (Inr b, db1, m1)" and
        st1: "st1 = (db1, AList.update (getAssetId c s)
                           (b\<lparr>contractId := Some c, subId := Some s\<rparr>) m1)"
        by (auto simp: processMint_def st split: option.splits sum.splits prod.splits)
      have held: "map_of (snd st1) (getAssetId c s) =
          Some (b\<lparr>contractId := Some c, subId := Some s\<rparr>)"
        by (simp add: st1 AList.update_conv')
      have twice: "processMint env r st1 = (Inr (), st1)"
        using held by (simp add: processMint_def c s st1 getAsset_cached)
      from first Inr twice assms show ?thesis
        by (simp add: processReceipt_cases)
    qed
  qed
  from same once later show ?thesis by blast
qed

theorem mint_twice_same_as_once_witness:
  "receiptType (mintReceipt contractAA subIdBB) = ''MINT'' \<and>
   processReceipts (textDecoder ''0x01'')
       [mintReceipt contractAA subIdBB, mintReceipt contractAA subIdBB] (emptyStore, []) =
     processReceipts (textDecoder ''0x01'') [mintReceipt contractAA subIdBB] (emptyStore, []) \<and>
   processReceipts (textDecoder ''0x01'') [mintReceipt contractAA subIdBB] (emptyStore, []) =
     (Inr (), emptyStore\<lparr>findOneCalls := [getAssetId contractAA subIdBB]\<rparr>,
      [(getAssetId contractAA subIdBB,
        \<lparr>id' = getAssetId contractAA subIdBB, contractId = Some contractAA,
         subId = Some subIdBB, name = None, symbol = None, decimals = None\<rparr>)])"
proof -
  have h: "receiptType (mintReceipt contractAA subIdBB) = ''MINT''"
    by (simp add: mintReceipt_def)
  have once: "processReceipts (textDecoder ''0x01'') [mintReceipt contractAA subIdBB]
       (emptyStore, []) =
     (Inr (), emptyStore\<lparr>findOneCalls := [getAssetId contractAA subIdBB]\<rparr>,
      [(getAssetId contractAA subIdBB,
        \<lparr>id' = getAssetId contractAA subIdBB, contractId = Some contractAA,
         subId = Some subIdBB, name = None, symbol = None, decimals = None\<rparr>)])"
    by (simp add: processReceipt_cases processMint_def getAsset_load mintReceipt_def
          textDecoder_def emptyStore_def newAsset_def)
  from mint_twice_same_as_once [OF h, of "textDecoder ''0x01''" "(emptyStore, [])"] h once
  show ?thesis by simp
qed

text \<open>
  C1. End to end. The store has no rows; the batch is one block with a MINT receipt for
  contract \<open>0xaa\<dots>\<close> and sub-id \<open>0xbb\<dots>\<close> (32 bytes each) followed by a LOG_DATA receipt
  with \<open>rb = setNameEventId\<close> that decodes to the derived id and the name \<open>Token\<close>. Then the
  handler succeeds after one lookup and one upsert call, of exactly one record: its id
  is \<open>0x\<close> followed by the lowercase hex SHA-256 digest of the 32 bytes \<open>AA\<close> and the 32
  bytes \<open>BB\<close>, it carries the contract, the sub-id and the name, and symbol and decimals
  are null.
\<close>

theorem end_to_end_mint_then_setName:
  assumes "rows db = Map.empty"
    and "fault env (getAssetId contractAA subIdBB) = None"
    and "receiptType r1 = ''MINT''"
    and "contract r1 = Some contractAA" and "receipt.subId r1 = Some subIdBB"
    and "receiptType r2 = ''LOG_DATA''" and "rb r2 = Some setNameEventId"
    and "decodeLog env (data r2) (toString setNameEventId) = Inr ev"
    and "bits ev = getAssetId contractAA subIdBB" and "logEvent.name ev = Some ''Token''"
  shows "\<exists>k asset.
     k = ''0x'' @ digestHex (sha256 (replicate 32 0xAA @ replicate 32 0xBB)) \<and>
     asset = \<lparr>id' = k, contractId = Some contractAA, subId = Some subIdBB,
              name = Some ''Token'', symbol = None, decimals = None\<rparr> \<and>
     handler env \<lparr>blocks = [\<lparr>receipts = [r1, r2]\<rparr>], store = db\<rparr> =
       (Inr (), db\<lparr>rows := [k \<mapsto> asset], findOneCalls := findOneCalls db @ [k],
                    upsertCalls := upsertCalls db @ [[asset]]\<rparr>)"
proof -
  define k where "k = getAssetId contractAA subIdBB"
  have k: "k = ''0x'' @ digestHex (sha256 (replicate 32 0xAA @ replicate 32 0xBB))"
    by (simp only: k_def getAssetId_def bufferFromHex_AA_BB)
  have mint: "processReceipt env r1 (db, []) =
      (Inr (), db\<lparr>findOneCalls := findOneCalls db @ [k]\<rparr>,
       [(k, (newAsset k)\<lparr>contractId := Some contractAA, subId := Some subIdBB\<rparr>)])"
    using assms(1-5)
    by (simp add: processReceipt_cases processMint_def getAsset_load k_def)
  have named: "processReceipt env r2
        (db\<lparr>findOneCalls := findOneCalls db @ [k]\<rparr>,
         [(k, (newAsset k)\<lparr>contractId := Some contractAA, subId := Some subIdBB\<rparr>)]) =
      (Inr (), db\<lparr>findOneCalls := findOneCalls db @ [k]\<rparr>,
       [(k, (newAsset k)\<lparr>contractId := Some contractAA, subId := Some subIdBB,
                          name := Some ''Token''\<rparr>)])"
    using assms(6-10)
    by (simp add: processReceipt_cases setName_def getAsset_cached k_def)
  have "handler env \<lparr>blocks = [\<lparr>receipts = [r1, r2]\<rparr>], store = db\<rparr> =
      (Inr (), upsert
         [(newAsset k)\<lparr>contractId := Some contractAA, subId := Some subIdBB,
                        name := Some ''Token''\<rparr>]
         (db\<lparr>findOneCalls := findOneCalls db @ [k]\<rparr>))"
    by (simp add: handler_def mint named)
  then have "handler env \<lparr>blocks = [\<lparr>receipts = [r1, r2]\<rparr>], store = db\<rparr> =
      (Inr (), db\<lparr>rows := [k \<mapsto> \<lparr>id' = k, contractId = Some contractAA,
                                    subId = Some subIdBB, name = Some ''Token'',
                                    symbol = None, decimals = None\<rparr>],
                   findOneCalls := findOneCalls db @ [k],
                   upsertCalls := upsertCalls db @
                     [[\<lparr>id' = k, contractId = Some contractAA, subId = Some subIdBB,
                        name = Some ''Token'', symbol = None, decimals = None\<rparr>]]\<rparr>)"
    using assms(1) by (simp add: upsert_def newAsset_def)
  with k show ?thesis by blast
qed

theorem end_to_end_mint_then_setName_witness:
  "rows emptyStore = Map.empty \<and>
   fault (textDecoder (getAssetId contractAA subIdBB)) (getAssetId contractAA subIdBB) = None \<and>
   handler (textDecoder (getAssetId contractAA subIdBB))
     \<lparr>blocks = [\<lparr>receipts = [mintReceipt contractAA subIdBB,
                              logReceipt setNameEventId (Some ''Token'')]\<rparr>],
      store = emptyStore\<rparr> =
     (Inr (),
      \<lparr>rows = [''0x'' @ digestHex (sha256 (replicate 32 0xAA @ replicate 32 0xBB)) \<mapsto>
                \<lparr>id' = ''0x'' @ digestHex (sha256 (replicate 32 0xAA @ replicate 32 0xBB)),
                 contractId = Some contractAA, subId = Some subIdBB,
                 name = Some ''Token'', symbol = None, decimals = None\<rparr>],
       findOneCalls = [''0x'' @ digestHex (sha256 (replicate 32 0xAA @ replicate 32 0xBB))],
       upsertCalls =
         [[\<lparr>id' = ''0x'' @ digestHex (sha256 (replicate 32 0xAA @ replicate 32 0xBB)),
            contractId = Some contractAA, subId = Some subIdBB,
            name = Some ''Token'', symbol = None, decimals = None\<rparr>]]\<rparr>)"
proof -
  let ?env = "textDecoder (getAssetId contractAA subIdBB)"
  let ?r1 = "mintReceipt contractAA subIdBB"
  let ?r2 = "logReceipt setNameEventId (Some ''Token'')"
  have h1: "rows emptyStore = Map.empty" by (simp add: emptyStore_def)
  have h2: "fault ?env (getAssetId contractAA subIdBB) = None" by (simp add: textDecoder_def)
  have h3: "receiptType ?r1 = ''MINT''" "contract ?r1 = Some contractAA"
    "receipt.subId ?r1 = Some subIdBB"
    by (simp_all add: mintReceipt_def)
  have h4: "receiptType ?r2 = ''LOG_DATA''" "rb ?r2 = Some setNameEventId"
    by (simp_all add: logReceipt_def)
  have h5: "decodeLog ?env (data ?r2) (toString setNameEventId) =
      Inr \<lparr>bits = getAssetId contractAA subIdBB, logEvent.name = Some ''Token'',
           logEvent.symbol = None, logEvent.decimals = None\<rparr>"
    by (simp add: textDecoder_def logReceipt_def toString_ids)
  from end_to_end_mint_then_setName [OF h1 h2 h3 h4 h5] h1 h2 show ?thesis
    by (auto simp: emptyStore_def)
qed

text \<open>
  C2. Partial-record preservation. The store holds for \<open>k\<close> a row with contract and
  sub-id and with name, symbol and decimals null, and the lookup succeeds. The only
  receipt of the batch (in whatever block) is a LOG_DATA receipt with
  \<open>rb = setSymbolEventId\<close> that decodes to asset \<open>k\<close>. Then the handler upserts one
  record: the stored one with its contract and sub-id as they were, the decoded symbol,
  and name and decimals still null.
\<close>

theorem partial_record_preserved:
  assumes "rows (store c) k =
      Some \<lparr>id' = k, contractId = cid, subId = sid, name = None, symbol = None,
            decimals = None\<rparr>"
    and "fault env k = None"
    and "concat (map receipts (blocks c)) = [r]"
    and "receiptType r = ''LOG_DATA''" and "rb r = Some setSymbolEventId"
    and "decodeLog env (data r) (toString setSymbolEventId) = Inr ev" and "bits ev = k"
  shows "\<exists>asset.
     asset = \<lparr>id' = k, contractId = cid, subId = sid, name = None,
              symbol = logEvent.symbol ev, decimals = None\<rparr> \<and>
     handler env c =
       (Inr (), (store c)\<lparr>rows := (rows (store c))(k \<mapsto> asset),
                          findOneCalls := findOneCalls (store c) @ [k],
                          upsertCalls := upsertCalls (store c) @ [[asset]]\<rparr>)"
proof -
  have neq: "setSymbolEventId \<noteq> setNameEventId"
    using event_ids_distinct by simp
  have "processBlocks env (blocks c) (store c, []) =
      (Inr (), (store c)\<lparr>findOneCalls := findOneCalls (store c) @ [k]\<rparr>,
       [(k, \<lparr>id' = k, contractId = cid, subId = sid, name = None,
             symbol = logEvent.symbol ev, decimals = None\<rparr>)])"
    using assms neq
    by (simp add: processBlocks_concat processReceipt_cases setSymbol_def getAsset_load)
  then show ?thesis
    by (simp add: handler_def upsert_def)
qed

theorem partial_record_preserved_witness:
  "rows (emptyStore\<lparr>rows := [''0x01'' \<mapsto>
       \<lparr>id' = ''0x01'', contractId = Some contractAA, subId = Some subIdBB, name = None,
        symbol = None, decimals = None\<rparr>]\<rparr>) ''0x01'' =
     Some \<lparr>id' = ''0x01'', contractId = Some contractAA, subId = Some subIdBB, name = None,
           symbol = None, decimals = None\<rparr> \<and>
   handler (textDecoder ''0x01'')
     \<lparr>blocks = [\<lparr>receipts = []\<rparr>,
                \<lparr>receipts = [logReceipt setSymbolEventId (Some ''TKN'')]\<rparr>],
      store = emptyStore\<lparr>rows := [''0x01'' \<mapsto>
        \<lparr>id' = ''0x01'', contractId = Some contractAA, subId = Some subIdBB, name = None,
         symbol = None, decimals = None\<rparr>]\<rparr>\<rparr> =
     (Inr (),
      \<lparr>rows = [''0x01'' \<mapsto>
         \<lparr>id' = ''0x01'', contractId = Some contractAA, subId = Some subIdBB, name = None,
          symbol = Some ''TKN'', decimals = None\<rparr>],
       findOneCalls = [''0x01''],
       upsertCalls =
         [[\<lparr>id' = ''0x01'', contractId = Some contractAA, subId = Some subIdBB,
            name = None, symbol = Some ''TKN'', decimals = None\<rparr>]]\<rparr>)"
proof -
  let ?env = "textDecoder ''0x01''"
  let ?r = "logReceipt setSymbolEventId (Some ''TKN'')"
  let ?row = "\<lparr>id' = ''0x01'', contractId = Some contractAA, subId = Some subIdBB,
      name = None, symbol = None, decimals = None\<rparr>"
  let ?c = "\<lparr>blocks = [\<lparr>receipts = []\<rparr>, \<lparr>receipts = [?r]\<rparr>],
      store = emptyStore\<lparr>rows := [''0x01'' \<mapsto> ?row]\<rparr>\<rparr>"
  have h1: "rows (store ?c) ''0x01'' = Some ?row" by simp
  have h2: "fault ?env ''0x01'' = None" by (simp add: textDecoder_def)
  have h3: "concat (map receipts (blocks ?c)) = [?r]" by simp
  have h4: "receiptType ?r = ''LOG_DATA''" "rb ?r = Some setSymbolEventId"
    by (simp_all add: logReceipt_def)
  have h5: "decodeLog ?env (data ?r) (toString setSymbolEventId) =
      Inr \<lparr>bits = ''0x01'', logEvent.name = None, logEvent.symbol = Some ''TKN'',
           logEvent.decimals = None\<rparr>"
    by (simp add: textDecoder_def logReceipt_def toString_ids)
  have h6: "bits \<lparr>bits = ''0x01'', logEvent.name = None, logEvent.symbol = Some ''TKN'',
           logEvent.decimals = None\<rparr> = ''0x01''" by simp
  from partial_record_preserved [OF h1 h2 h3 h4 h5 h6] show ?thesis
    by (simp add: emptyStore_def)
qed

text \<open>
  C3. (a) A batch whose receipts are, in processing order, setName, setSymbol, MINT for
  one derived id gives the same outcome and the same store as a batch with MINT,
  setName, setSymbol; when the lookup succeeds, the one record upserted is the merge
  base with contract, sub-id, name and symbol all set. (b) When the receipts of a batch
  contain two setName events for asset \<open>k\<close> and no setName for \<open>k\<close> comes after the
  second, then in the final \<^verbatim>\<open>assetsById\<close>, whose values the handler upserts, the record
  of \<open>k\<close> has the name of the second event, whatever lies before, between and after them;
  and when the store's rows are keyed by their ids, that record is the row of \<open>k\<close> after
  the batch. Processing order is the order of the blocks in the batch, then of the
  receipts in each block.
\<close>

theorem order_across_fields_last_write_within_field:
  "(receiptType rM = ''MINT'' \<and> contract rM = Some cid \<and> receipt.subId rM = Some sid \<and>
    receiptType rN = ''LOG_DATA'' \<and> rb rN = Some setNameEventId \<and>
    decodeLog env (data rN) (toString setNameEventId) = Inr evN \<and>
    bits evN = getAssetId cid sid \<and>
    receiptType rS = ''LOG_DATA'' \<and> rb rS = Some setSymbolEventId \<and>
    decodeLog env (data rS) (toString setSymbolEventId) = Inr evS \<and>
    bits evS = getAssetId cid sid \<and>
    concat (map receipts (blocks c1)) = [rN, rS, rM] \<and>
    concat (map receipts (blocks c2)) = [rM, rN, rS] \<and> store c1 = store c2 \<longrightarrow>
      handler env c1 = handler env c2 \<and>
      (fault env (getAssetId cid sid) = None \<longrightarrow>
         handler env c1 =
           (Inr (),
            upsert
              [(case rows (store c1) (getAssetId cid sid) of
                  Some stored \<Rightarrow> stored
                | None \<Rightarrow> newAsset (getAssetId cid sid))
               \<lparr>contractId := Some cid, subId := Some sid, name := logEvent.name evN,
                symbol := logEvent.symbol evS\<rparr>]
              ((store c1)\<lparr>findOneCalls :=
                 findOneCalls (store c1) @ [getAssetId cid sid]\<rparr>)))) \<and>
   (concat (map receipts (blocks c)) = pre @ [r1] @ mid @ [r2] @ post \<and>
    setsNameOf env k r1 \<and>
    receiptType r2 = ''LOG_DATA'' \<and> rb r2 = Some setNameEventId \<and>
    decodeLog env (data r2) (toString setNameEventId) = Inr ev2 \<and> bits ev2 = k \<and>
    (\<forall>r \<in> set post. \<not> setsNameOf env k r) \<and>
    processBlocks env (blocks c) (store c, []) = (Inr (), db, assetsById) \<longrightarrow>
      handler env c = (Inr (), upsert (map snd assetsById) db) \<and>
      (\<exists>asset. map_of assetsById k = Some asset \<and> name asset = logEvent.name ev2 \<and>
         (keyed (rows (store c)) \<longrightarrow> rows (snd (handler env c)) k = Some asset)))"
proof (intro conjI impI; (elim conjE)?)
  assume m: "receiptType rM = ''MINT''" "contract rM = Some cid" "receipt.subId rM = Some sid"
    and n: "receiptType rN = ''LOG_DATA''" "rb rN = Some setNameEventId"
      "decodeLog env (data rN) (toString setNameEventId) = Inr evN"
      "bits evN = getAssetId cid sid"
    and s: "receiptType rS = ''LOG_DATA''" "rb rS = Some setSymbolEventId"
      "decodeLog env (data rS) (toString setSymbolEventId) = Inr evS"
      "bits evS = getAssetId cid sid"
    and c1: "concat (map receipts (blocks c1)) = [rN, rS, rM]"
    and c2: "concat (map receipts (blocks c2)) = [rM, rN, rS]"
    and st: "store c1 = store c2"
  note orders = mint_name_symbol_orders [OF m n s]
  show same: "handler env c1 = handler env c2"
    by (simp add: handler_def processBlocks_concat c1 c2 st orders(1)
          del: processReceipts.simps)
  show "handler env c1 =
           (Inr (),
            upsert
              [(case rows (store c1) (getAssetId cid sid) of
                  Some stored \<Rightarrow> stored
                | None \<Rightarrow> newAsset (getAssetId cid sid))
               \<lparr>contractId := Some cid, subId := Some sid, name := logEvent.name evN,
                symbol := logEvent.symbol evS\<rparr>]
              ((store c1)\<lparr>findOneCalls :=
                 findOneCalls (store c1) @ [getAssetId cid sid]\<rparr>))"
    if "fault env (getAssetId cid sid) = None"
    unfolding same
    by (simp add: handler_def processBlocks_concat c2 st orders(2) [OF that]
          del: processReceipts.simps)
next
  assume batch: "concat (map receipts (blocks c)) = pre @ [r1] @ mid @ [r2] @ post"
    and r2: "receiptType r2 = ''LOG_DATA''" "rb r2 = Some setNameEventId"
      "decodeLog env (data r2) (toString setNameEventId) = Inr ev2"
    and k: "bits ev2 = k"
    and post: "\<forall>r \<in> set post. \<not> setsNameOf env k r"
    and run: "processBlocks env (blocks c) (store c, []) = (Inr (), db, assetsById)"
  show "handler env c = (Inr (), upsert (map snd assetsById) db)"
    using run by (simp add: handler_def)
  from run batch have
    "processReceipts env ((pre @ [r1] @ mid) @ [r2] @ post) (store c, []) =
       (Inr (), db, assetsById)"
    by (simp add: processBlocks_concat)
  from last_setName_wins [OF this r2] post k
  obtain asset where held: "map_of assetsById k = Some asset"
    and named: "name asset = logEvent.name ev2"
    by auto
  have "rows (snd (handler env c)) k = Some asset" if "keyed (rows (store c))"
    using held by (simp add: handler_rows [OF run that])
  with held named
  show "\<exists>asset. map_of assetsById k = Some asset \<and> name asset = logEvent.name ev2 \<and>
      (keyed (rows (store c)) \<longrightarrow> rows (snd (handler env c)) k = Some asset)"
    by blast
qed

theorem order_across_fields_last_write_within_field_witness:
  "handler (textDecoder (getAssetId contractAA subIdBB))
     \<lparr>blocks = [\<lparr>receipts = [logReceipt setNameEventId (Some ''Token''),
                              logReceipt setSymbolEventId (Some ''TKN''),
                              mintReceipt contractAA subIdBB]\<rparr>],
      store = emptyStore\<rparr> =
   handler (textDecoder (getAssetId contractAA subIdBB))
     \<lparr>blocks = [\<lparr>receipts = [mintReceipt contractAA subIdBB,
                              logReceipt setNameEventId (Some ''Token''),
                              logReceipt setSymbolEventId (Some ''TKN'')]\<rparr>],
      store = emptyStore\<rparr> \<and>
   handler (textDecoder (getAssetId contractAA subIdBB))
     \<lparr>blocks = [\<lparr>receipts = [logReceipt setNameEventId (Some ''Token''),
                              logReceipt setSymbolEventId (Some ''TKN''),
                              mintReceipt contractAA subIdBB]\<rparr>],
      store = emptyStore\<rparr> =
     (Inr (),
      \<lparr>rows = [getAssetId contractAA subIdBB \<mapsto>
         \<lparr>id' = getAssetId contractAA subIdBB, contractId = Some contractAA,
          subId = Some subIdBB, name = Some ''Token'', symbol = Some ''TKN'',
          decimals = None\<rparr>],
       findOneCalls = [getAssetId contractAA subIdBB],
       upsertCalls =
         [[\<lparr>id' = getAssetId contractAA subIdBB, contractId = Some contractAA,
            subId = Some subIdBB, name = Some ''Token'', symbol = Some ''TKN'',
            decimals = None\<rparr>]]\<rparr>) \<and>
   processBlocks (textDecoder (getAssetId contractAA subIdBB))
     [\<lparr>receipts = [logReceipt setNameEventId (Some ''Old''),
                   mintReceipt contractAA subIdBB]\<rparr>,
      \<lparr>receipts = [logReceipt setNameEventId (Some ''New'')]\<rparr>]
     (emptyStore, []) =
     (Inr (), emptyStore\<lparr>findOneCalls := [getAssetId contractAA subIdBB]\<rparr>,
      [(getAssetId contractAA subIdBB,
        \<lparr>id' = getAssetId contractAA subIdBB, contractId = Some contractAA,
         subId = Some subIdBB, name = Some ''New'', symbol = None, decimals = None\<rparr>)]) \<and>
   (\<exists>asset.
      map_of [(getAssetId contractAA subIdBB,
        \<lparr>id' = getAssetId contractAA subIdBB, contractId = Some contractAA,
         subId = Some subIdBB, name = Some ''New'', symbol = None, decimals = None\<rparr>)]
        (getAssetId contractAA subIdBB) = Some asset \<and>
      name asset = Some ''New'' \<and>
      rows (snd (handler (textDecoder (getAssetId contractAA subIdBB))
        \<lparr>blocks = [\<lparr>receipts = [logReceipt setNameEventId (Some ''Old''),
                                 mintReceipt contractAA subIdBB]\<rparr>,
                    \<lparr>receipts = [logReceipt setNameEventId (Some ''New'')]\<rparr>],
         store = emptyStore\<rparr>)) (getAssetId contractAA subIdBB) = Some asset)"
proof -
  let ?K = "getAssetId contractAA subIdBB"
  let ?env = "textDecoder ?K"
  let ?rM = "mintReceipt contractAA subIdBB"
  let ?rN = "logReceipt setNameEventId (Some ''Token'')"
  let ?rS = "logReceipt setSymbolEventId (Some ''TKN'')"
  let ?old = "logReceipt setNameEventId (Some ''Old'')"
  let ?new = "logReceipt setNameEventId (Some ''New'')"
  let ?evN = "\<lparr>bits = ?K, logEvent.name = Some ''Token'', logEvent.symbol = None,
      logEvent.decimals = None\<rparr>"
  let ?evS = "\<lparr>bits = ?K, logEvent.name = None, logEvent.symbol = Some ''TKN'',
      logEvent.decimals = None\<rparr>"
  let ?ev2 = "\<lparr>bits = ?K, logEvent.name = Some ''New'', logEvent.symbol = None,
      logEvent.decimals = None\<rparr>"
  let ?c1 = "\<lparr>blocks = [\<lparr>receipts = [?rN, ?rS, ?rM]\<rparr>], store = emptyStore\<rparr>"
  let ?c2 = "\<lparr>blocks = [\<lparr>receipts = [?rM, ?rN, ?rS]\<rparr>], store = emptyStore\<rparr>"
  let ?c = "\<lparr>blocks = [\<lparr>receipts = [?old, ?rM]\<rparr>, \<lparr>receipts = [?new]\<rparr>],
      store = emptyStore\<rparr>"
  let ?db = "emptyStore\<lparr>findOneCalls := [?K]\<rparr>"
  let ?m = "[(?K, \<lparr>id' = ?K, contractId = Some contractAA, subId = Some subIdBB,
      name = Some ''New'', symbol = None, decimals = None\<rparr>)]"
  have a: "receiptType ?rM = ''MINT'' \<and> contract ?rM = Some contractAA \<and>
      receipt.subId ?rM = Some subIdBB \<and>
      receiptType ?rN = ''LOG_DATA'' \<and> rb ?rN = Some setNameEventId \<and>
      decodeLog ?env (data ?rN) (toString setNameEventId) = Inr ?evN \<and> bits ?evN = ?K \<and>
      receiptType ?rS = ''LOG_DATA'' \<and> rb ?rS = Some setSymbolEventId \<and>
      decodeLog ?env (data ?rS) (toString setSymbolEventId) = Inr ?evS \<and> bits ?evS = ?K \<and>
      concat (map receipts (blocks ?c1)) = [?rN, ?rS, ?rM] \<and>
      concat (map receipts (blocks ?c2)) = [?rM, ?rN, ?rS] \<and> store ?c1 = store ?c2"
    by (simp add: mintReceipt_def logReceipt_def textDecoder_def toString_ids)
  have f: "fault ?env ?K = None"
    by (simp add: textDecoder_def)
  have run': "processBlocks ?env [\<lparr>receipts = [?old, ?rM]\<rparr>, \<lparr>receipts = [?new]\<rparr>]
      (emptyStore, []) = (Inr (), ?db, ?m)"
    by (simp add: processReceipt_cases processMint_def setName_def getAsset_load
          getAsset_cached mintReceipt_def logReceipt_def textDecoder_def toString_ids
          emptyStore_def newAsset_def)
  then have run: "processBlocks ?env (blocks ?c) (store ?c, []) = (Inr (), ?db, ?m)"
    by (simp del: processBlocks.simps)
  have b: "concat (map receipts (blocks ?c)) = [] @ [?old] @ [?rM] @ [?new] @ [] \<and>
      setsNameOf ?env ?K ?old \<and>
      receiptType ?new = ''LOG_DATA'' \<and> rb ?new = Some setNameEventId \<and>
      decodeLog ?env (data ?new) (toString setNameEventId) = Inr ?ev2 \<and> bits ?ev2 = ?K \<and>
      (\<forall>r \<in> set []. \<not> setsNameOf ?env ?K r)"
    by (simp add: setsNameOf_def logReceipt_def textDecoder_def toString_ids)
  have kd: "keyed (rows (store ?c))"
    by (simp add: keyed_def emptyStore_def)
  from order_across_fields_last_write_within_field
    [where rM = ?rM and cid = contractAA and sid = subIdBB and rN = ?rN and env = ?env
       and evN = ?evN and rS = ?rS and evS = ?evS and ?c1.0 = ?c1 and ?c2.0 = ?c2
       and c = ?c and pre = "[]" and ?r1.0 = ?old and mid = "[?rM]" and ?r2.0 = ?new
       and post = "[]" and k = ?K and ?ev2.0 = ?ev2 and db = ?db and assetsById = ?m]
    a f run b kd
  have concl: "handler ?env ?c1 = handler ?env ?c2 \<and>
      handler ?env ?c1 =
        (Inr (),
         upsert
           [(case rows (store ?c1) ?K of Some stored \<Rightarrow> stored | None \<Rightarrow> newAsset ?K)
            \<lparr>contractId := Some contractAA, subId := Some subIdBB,
             name := logEvent.name ?evN, symbol := logEvent.symbol ?evS\<rparr>]
           ((store ?c1)\<lparr>findOneCalls := findOneCalls (store ?c1) @ [?K]\<rparr>)) \<and>
      (\<exists>asset. map_of ?m ?K = Some asset \<and> name asset = logEvent.name ?ev2 \<and>
         rows (snd (handler ?env ?c)) ?K = Some asset)"
    by blast
  from concl have h1: "handler ?env ?c1 = handler ?env ?c2" by (rule conjunct1)
  from concl have "handler ?env ?c1 =
        (Inr (),
         upsert
           [(case rows (store ?c1) ?K of Some stored \<Rightarrow> stored | None \<Rightarrow> newAsset ?K)
            \<lparr>contractId := Some contractAA, subId := Some subIdBB,
             name := logEvent.name ?evN, symbol := logEvent.symbol ?evS\<rparr>]
           ((store ?c1)\<lparr>findOneCalls := findOneCalls (store ?c1) @ [?K]\<rparr>))"
    by (rule conjunct2 [THEN conjunct1])
  also have "\<dots> = (Inr (),
      \<lparr>rows = [?K \<mapsto> \<lparr>id' = ?K, contractId = Some contractAA, subId = Some subIdBB,
                      name = Some ''Token'', symbol = Some ''TKN'', decimals = None\<rparr>],
       findOneCalls = [?K],
       upsertCalls = [[\<lparr>id' = ?K, contractId = Some contractAA, subId = Some subIdBB,
                       name = Some ''Token'', symbol = Some ''TKN'', decimals = None\<rparr>]]\<rparr>)"
    by (simp add: upsert_def emptyStore_def newAsset_def)
  finally have h2: "handler ?env ?c1 = (Inr (),
      \<lparr>rows = [?K \<mapsto> \<lparr>id' = ?K, contractId = Some contractAA, subId = Some subIdBB,
                      name = Some ''Token'', symbol = Some ''TKN'', decimals = None\<rparr>],
       findOneCalls = [?K],
       upsertCalls = [[\<lparr>id' = ?K, contractId = Some contractAA, subId = Some subIdBB,
                       name = Some ''Token'', symbol = Some ''TKN'', decimals = None\<rparr>]]\<rparr>)" .
  from concl have h3: "\<exists>asset. map_of ?m ?K = Some asset \<and> name asset = Some ''New'' \<and>
      rows (snd (handler ?env ?c)) ?K = Some asset"
    by simp
  show ?thesis
    by (rule conjI [OF h1 conjI [OF h2 conjI [OF run' h3]]])
qed

text \<open>
  C6, as the spec states it, fails: \<^verbatim>\<open>getAssetId\<close> validates nothing. For the contract
  \<open>0xzz\<close>, which is not hexadecimal, the hex decoder stops at the first pair, the digest is
  taken over no bytes at all, and the function returns that identifier; a MINT receipt
  carrying it is processed without error.
\<close>

theorem malformed_hex_yields_identifier:
  "\<not> wellFormedHex (drop 2 ''0xzz'') \<and>
   getAssetId ''0xzz'' ''0x00'' =
     ''0xe3b0c44298fc1c149afbf4c8996fb92427ae41e4649b934ca495991b7852b855'' \<and>
   fst (processReceipt (textDecoder ''0x01'') (mintReceipt ''0xzz'' ''0x00'') (emptyStore, [])) =
     Inr ()"
proof -
  have "\<not> wellFormedHex (drop 2 ''0xzz'')"
    by (simp add: wellFormedHex_def unhex_def)
  moreover have "bufferFromHex (drop 2 ''0xzz'' @ drop 2 ''0x00'') = []"
    by (simp add: unhex_def)
  then have "getAssetId ''0xzz'' ''0x00'' =
      ''0xe3b0c44298fc1c149afbf4c8996fb92427ae41e4649b934ca495991b7852b855''"
    by (simp add: getAssetId_def sha256_empty)
  moreover have "fst (processReceipt (textDecoder ''0x01'') (mintReceipt ''0xzz'' ''0x00'')
      (emptyStore, [])) = Inr ()"
    by (simp add: processReceipt_cases processMint_def getAsset_load mintReceipt_def
          textDecoder_def)
  ultimately show ?thesis by blast
qed

text \<open>
  C6, amended. For every pair of strings, well-formed or not, \<^verbatim>\<open>getAssetId\<close> returns an
  identifier and never fails: \<open>0x\<close> followed by the 64 lowercase hex digits of the SHA-256
  digest of whatever bytes the hex decoder reads from the two strings, each without its
  first two characters, joined.
\<close>

theorem getAssetId_always_returns:
  "getAssetId c s = ''0x'' @ digestHex (sha256 (bufferFromHex (drop 2 c @ drop 2 s))) \<and>
   length (getAssetId c s) = 66 \<and>
   set (drop 2 (getAssetId c s)) \<subseteq> set ''0123456789abcdef''"
  using set_digestHex [of "sha256 (bufferFromHex (drop 2 c @ drop 2 s))"]
  by (simp add: getAssetId_def length_digestHex length_sha256)

text \<open>
  C9. \<^verbatim>\<open>getAssetId\<close> reads nothing but its two arguments: any two results for the same
  contract id and sub-id are the same string.
\<close>

theorem getAssetId_deterministic:
  "getAssetId c s = r1 \<Longrightarrow> getAssetId c s = r2 \<Longrightarrow> r1 = r2"
  by simp

theorem getAssetId_deterministic_witness:
  "getAssetId contractAA subIdBB =
     ''0x'' @ digestHex (sha256 (bufferFromHex (drop 2 contractAA @ drop 2 subIdBB))) \<and>
   getAssetId contractAA subIdBB =
     ''0x'' @ digestHex (sha256 (replicate 32 0xAA @ replicate 32 0xBB)) \<and>
   ''0x'' @ digestHex (sha256 (bufferFromHex (drop 2 contractAA @ drop 2 subIdBB))) =
     ''0x'' @ digestHex (sha256 (replicate 32 0xAA @ replicate 32 0xBB))"
proof -
  have h1: "getAssetId contractAA subIdBB =
      ''0x'' @ digestHex (sha256 (bufferFromHex (drop 2 contractAA @ drop 2 subIdBB)))"
    by (simp only: getAssetId_def)
  have h2: "getAssetId contractAA subIdBB =
      ''0x'' @ digestHex (sha256 (replicate 32 0xAA @ replicate 32 0xBB))"
    by (simp only: getAssetId_def bufferFromHex_AA_BB)
  from h1 h2 getAssetId_deterministic [OF h1 h2] show ?thesis by (intro conjI)
qed

end
